theory Spec2Isabelle
  imports Complex_Main "HOL-Library.Sublist"
begin

section \<open>Strings, thrown values and stored values\<close>

text \<open>
  A JavaScript string is modelled by the list of the bytes of its UTF-8 encoding. All the
  substrings the code searches for are ASCII, and an ASCII byte never occurs inside the
  encoding of another character, so \<open>String.prototype.includes\<close> with an ASCII needle is
  the search for a contiguous sublist of bytes.
\<close>

fun str_includes :: "string \<Rightarrow> string \<Rightarrow> bool" where
  "str_includes [] s = (s = [])"
| "str_includes (c # cs) s = (prefix s (c # cs) \<or> str_includes cs s)"

text \<open>
  A value caught by a \<open>catch\<close> clause: \<open>undefined\<close> (the initial value of
  \<open>lastError\<close> in \<open>retryWithBackoff\<close>), or any other value, of which only the
  \<open>message\<close> property matters (\<open>None\<close> when the value carries no message).
\<close>

datatype js_error = Undefined | Error "string option"

text \<open>\<open>error.message?.includes(s)\<close>, for an \<open>error\<close> that is not \<open>undefined\<close>.\<close>

fun message_includes :: "js_error \<Rightarrow> string \<Rightarrow> bool" where
  "message_includes Undefined s = False"
| "message_includes (Error None) s = False"
| "message_includes (Error (Some m)) s = str_includes m s"

text \<open>
  Reading \<open>error.message\<close> of \<open>undefined\<close> raises a \<open>TypeError\<close>; its message is the
  engine's (the wording of V8 is used here).
\<close>

definition typeError_message :: js_error where
  "typeError_message = Error (Some ''Cannot read properties of undefined (reading 'message')'')"

text \<open>A value read from the realtime database (\<open>snapshot.val()\<close>).\<close>

datatype jsval =
    VNull
  | VBool bool
  | VNum rat
  | VStr string
  | VArr "jsval list"
  | VObj "(string \<times> jsval) list"

fun truthy :: "jsval \<Rightarrow> bool" where
  "truthy VNull = False"
| "truthy (VBool b) = b"
| "truthy (VNum n) = (n \<noteq> 0)"
| "truthy (VStr s) = (s \<noteq> [])"
| "truthy (VArr xs) = True"
| "truthy (VObj kvs) = True"

text \<open>
  \<open>data.key\<close> for a value that is not \<open>null\<close>: the stored child of an object, and
  \<open>undefined\<close> (\<open>None\<close>) on every other value, for the keys read here.
\<close>

fun get_prop :: "jsval \<Rightarrow> string \<Rightarrow> jsval option" where
  "get_prop (VObj kvs) k = map_of kvs k"
| "get_prop v k = None"

text \<open>\<open>a || b\<close> where \<open>a\<close> is a property that may be absent.\<close>

fun or_else :: "jsval option \<Rightarrow> jsval \<Rightarrow> jsval" where
  "or_else None d = d"
| "or_else (Some v) d = (if truthy v then v else d)"

fun truthy_prop :: "jsval option \<Rightarrow> bool" where
  "truthy_prop None = False"
| "truthy_prop (Some v) = truthy v"

section \<open>firestoreService: getUserData\<close>

text \<open>
  The database is an external collaborator: reading a path either fails (the promise of
  \<open>get\<close> rejects) or yields the value stored there, \<open>null\<close> when nothing is stored.
\<close>

type_synonym database = "string \<Rightarrow> js_error + jsval"

record user_data =
  profile :: jsval
  goal :: jsval

definition default_profile :: jsval where
  "default_profile =
     VObj [(''context'', VStr ''Default context''), (''identity'', VStr ''Default identity'')]"

definition default_goal :: jsval where
  "default_goal = VObj [(''title'', VStr ''Default goal''), (''tasks'', VArr [])]"

definition getUserData :: "database \<Rightarrow> string \<Rightarrow> js_error + user_data" where
  "getUserData db userId =
     (case db (''users/'' @ userId) of
        Inl e \<Rightarrow> Inl e
      | Inr data \<Rightarrow>
          if truthy data \<and> (truthy_prop (get_prop data ''profile'') \<or> truthy_prop (get_prop data ''goal''))
          then Inr \<lparr>profile = or_else (get_prop data ''profile'') default_profile,
                    goal = or_else (get_prop data ''goal'') default_goal\<rparr>
          else Inr \<lparr>profile = default_profile, goal = default_goal\<rparr>)"

text \<open>The node read from the store holds a child under the key: an object with a non-null entry.\<close>

fun holds :: "jsval \<Rightarrow> string \<Rightarrow> bool" where
  "holds (VObj kvs) k = (case map_of kvs k of None \<Rightarrow> False | Some v \<Rightarrow> v \<noteq> VNull)"
| "holds v k = False"

section \<open>geminiService: the request governor\<close>

text \<open>
  Time is the reading of \<open>Date.now()\<close>, in milliseconds. The model rests on two
  assumptions on the platform: the clock never runs backwards, and a timer set by
  \<open>setTimeout\<close> (the \<open>delay\<close> utility) or the completion of an operation is never
  observed before it is due. Synchronous code takes no time.
\<close>

definition MIN_REQUEST_INTERVAL :: int where
  "MIN_REQUEST_INTERVAL = 5000"

definition MAX_REQUESTS_PER_MINUTE :: nat where
  "MAX_REQUESTS_PER_MINUTE = 12"

definition RATE_LIMIT_WINDOW :: nat where
  "RATE_LIMIT_WINDOW = 60000"

text \<open>
  A wrapped operation (\<open>requestFn\<close>) is opaque: all that is known of one invocation is
  how long it takes and the outcome it settles with, which may depend on the time of its
  completion.
\<close>

datatype 'a operation = Operation (duration: nat) (result_at: "nat \<Rightarrow> js_error + 'a")

text \<open>
  The closure pushed by \<open>rateLimitedRequest\<close> is suspended at one of two awaits: the
  spacing \<open>delay(waitTime)\<close>, or the wrapped operation itself; each with the time it is due.
\<close>

datatype phase = Spacing nat | Running nat

text \<open>
  What is observed of a run: the start of a wrapped operation (line 48, right after
  \<open>lastRequestTime\<close> is set), the settling of the promise returned by
  \<open>rateLimitedRequest\<close>, and a back-off wait of \<open>retryWithBackoff\<close>, with the delay
  asked for and the times at which the wait begins and ends. Requests are numbered in the
  order of their submission.
\<close>

datatype 'a event =
    Started nat "'a operation" nat
  | Settled nat nat "js_error + 'a"
  | Backoff rat nat nat

text \<open>
  The state of the module (\<open>lastRequestTime\<close>, \<open>requestCount\<close>, \<open>requestQueue\<close>,
  \<open>isProcessingQueue\<close>) and what the model keeps of the platform: the clock, the due times
  of the pending timers that decrement \<open>requestCount\<close>, the request on which the loop of
  \<open>processQueue\<close> is suspended, the number of the next request, and the trace.
\<close>

record 'a governor =
  clock :: nat
  lastRequestTime :: nat
  requestCount :: int
  countTimers :: "nat list"
  requestQueue :: "(nat \<times> 'a operation) list"
  isProcessingQueue :: bool
  current :: "(nat \<times> 'a operation \<times> phase) option"
  nextId :: nat
  trace :: "'a event list"

text \<open>The module's initial state, loaded at time \<open>t0\<close>.\<close>

definition init :: "nat \<Rightarrow> 'a governor" where
  "init t0 = \<lparr>clock = t0, lastRequestTime = 0, requestCount = 0, countTimers = [],
              requestQueue = [], isProcessingQueue = False, current = None, nextId = 0,
              trace = []\<rparr>"

text \<open>
  Time passes: the clock advances, and every pending \<open>setTimeout(() => requestCount--,
  RATE_LIMIT_WINDOW)\<close> that is due runs.
\<close>

definition elapse :: "nat \<Rightarrow> 'a governor \<Rightarrow> 'a governor" where
  "elapse n g =
     (let t = clock g + n
      in g\<lparr>clock := t,
           requestCount := requestCount g - int (length (filter (\<lambda>d. d \<le> t) (countTimers g))),
           countTimers := filter (\<lambda>d. \<not> d \<le> t) (countTimers g)\<rparr>)"

definition advance_to :: "nat \<Rightarrow> 'a governor \<Rightarrow> 'a governor" where
  "advance_to due g = (if clock g < due then elapse (due - clock g) g else g)"

text \<open>Lines 41 to 48 of the queued closure: the request tracking, then the call of \<open>requestFn\<close>.\<close>

definition dispatch :: "nat \<Rightarrow> 'a operation \<Rightarrow> 'a governor \<Rightarrow> 'a governor" where
  "dispatch i fn g =
     g\<lparr>lastRequestTime := clock g,
       requestCount := requestCount g + 1,
       countTimers := countTimers g @ [clock g + RATE_LIMIT_WINDOW],
       trace := trace g @ [Started i fn (clock g)],
       current := Some (i, fn, Running (clock g + duration fn))\<rparr>"

text \<open>Lines 31 to 39: the queued closure up to its first await.\<close>

definition begin_request :: "nat \<Rightarrow> 'a operation \<Rightarrow> 'a governor \<Rightarrow> 'a governor" where
  "begin_request i fn g =
     (let now = clock g;
          timeSinceLastRequest = int now - int (lastRequestTime g)
      in if timeSinceLastRequest < MIN_REQUEST_INTERVAL
         then (let waitTime = MIN_REQUEST_INTERVAL - timeSinceLastRequest
               in g\<lparr>current := Some (i, fn, Spacing (now + nat waitTime))\<rparr>)
         else dispatch i fn g)"

text \<open>
  The loop of \<open>processQueue\<close> at its test: it takes the head of the queue and runs it up
  to its first await, or it leaves the loop and resets the flag.
\<close>

definition drain :: "'a governor \<Rightarrow> 'a governor" where
  "drain g =
     (case requestQueue g of
        [] \<Rightarrow> g\<lparr>isProcessingQueue := False, current := None\<rparr>
      | r # rest \<Rightarrow> begin_request (fst r) (snd r) (g\<lparr>requestQueue := rest, current := None\<rparr>))"

definition processQueue :: "'a governor \<Rightarrow> 'a governor" where
  "processQueue g =
     (if isProcessingQueue g \<or> requestQueue g = [] then g
      else drain (g\<lparr>isProcessingQueue := True\<rparr>))"

text \<open>
  \<open>rateLimitedRequest(requestFn)\<close> up to the return of its promise: the closure is pushed
  and \<open>processQueue\<close> is called.
\<close>

definition rateLimitedRequest :: "'a operation \<Rightarrow> 'a governor \<Rightarrow> 'a governor" where
  "rateLimitedRequest fn g =
     processQueue (g\<lparr>requestQueue := requestQueue g @ [(nextId g, fn)], nextId := Suc (nextId g)\<rparr>)"

text \<open>
  The await on which the loop is suspended completes: after the spacing delay the operation
  is dispatched; after the operation the promise of the request is settled with its outcome
  (lines 49 and 51; a failure is caught and passed to \<open>reject\<close>), and the loop goes on.
\<close>

definition resume :: "'a governor \<Rightarrow> 'a governor" where
  "resume g =
     (case current g of
        None \<Rightarrow> g
      | Some (i, fn, Spacing due) \<Rightarrow> dispatch i fn (advance_to due g)
      | Some (i, fn, Running due) \<Rightarrow>
          (let g' = advance_to due g
           in drain (g'\<lparr>trace := trace g' @ [Settled i (clock g') (result_at fn (clock g'))]\<rparr>)))"

text \<open>
  What the environment can do: submit an operation, let time pass, or let the pending await
  of the loop complete.
\<close>

datatype 'a command = Submit "'a operation" | Elapse nat | Resume

fun step :: "'a command \<Rightarrow> 'a governor \<Rightarrow> 'a governor" where
  "step (Submit fn) g = rateLimitedRequest fn g"
| "step (Elapse n) g = elapse n g"
| "step Resume g = resume g"

fun run :: "'a command list \<Rightarrow> 'a governor \<Rightarrow> 'a governor" where
  "run [] g = g"
| "run (c # cs) g = run cs (step c g)"

fun submitted :: "'a command list \<Rightarrow> 'a operation list" where
  "submitted [] = []"
| "submitted (Submit fn # cs) = fn # submitted cs"
| "submitted (c # cs) = submitted cs"

text \<open>The operations started, with their request numbers, and the times of their starts.\<close>

fun dispatched :: "'a event list \<Rightarrow> (nat \<times> 'a operation) list" where
  "dispatched [] = []"
| "dispatched (Started i fn t # es) = (i, fn) # dispatched es"
| "dispatched (e # es) = dispatched es"

fun start_times :: "'a event list \<Rightarrow> nat list" where
  "start_times [] = []"
| "start_times (Started i fn t # es) = t # start_times es"
| "start_times (e # es) = start_times es"

text \<open>
  A trace is serial when every start is followed at once by the settling of the same
  request, with the outcome of the operation started, except for a last operation that is
  still running.
\<close>

fun serial :: "'a event list \<Rightarrow> bool" where
  "serial [] = True"
| "serial [Started i fn t] = True"
| "serial (Started i fn t # Settled j t' r # es) = (i = j \<and> r = result_at fn t' \<and> serial es)"
| "serial (e # es) = False"

section \<open>geminiService: awaiting a request and retrying it\<close>

text \<open>The outcome with which the promise of request \<open>i\<close> was settled, if it was.\<close>

fun settled_outcome :: "nat \<Rightarrow> 'a event list \<Rightarrow> (js_error + 'a) option" where
  "settled_outcome i [] = None"
| "settled_outcome i (Settled j t r # es) = (if i = j then Some r else settled_outcome i es)"
| "settled_outcome i (e # es) = settled_outcome i es"

text \<open>
  The work that the loop of \<open>processQueue\<close> still has before it: two awaits for each
  queued request, and those left of the request it is running.
\<close>

fun weight :: "(nat \<times> 'a operation \<times> phase) option \<Rightarrow> nat" where
  "weight None = 0"
| "weight (Some (i, fn, Spacing d)) = 2"
| "weight (Some (i, fn, Running d)) = 1"

definition pending :: "'a governor \<Rightarrow> nat" where
  "pending g = 2 * length (requestQueue g) + weight (current g)"

text \<open>
  A caller awaits the promise of request \<open>i\<close>, with nothing else going on: the awaits of
  the loop complete one after the other, each when it is due, until the promise is settled.
  Were the loop to stop before that, the promise would stay pending for ever.
\<close>

function await_settled :: "nat \<Rightarrow> 'a governor \<Rightarrow> 'a governor" where
  "await_settled i g =
     (if settled_outcome i (trace g) \<noteq> None \<or> current g = None then g
      else await_settled i (resume g))"
  by pat_completeness auto
termination
  by (relation "measure (\<lambda>(i, g). pending g)")
     (auto simp: pending_def resume_def drain_def begin_request_def dispatch_def advance_to_def
        elapse_def Let_def split: phase.splits list.splits)

declare await_settled.simps [simp del]

text \<open>
  \<open>await rateLimitedRequest(fn)\<close>: the outcome (\<open>None\<close> when the promise never
  settles) and the state of the governor when the caller goes on. This is the run of a single
  caller; the properties of the retry wrapper and of the generators are stated for a call
  made while the governor is idle.
\<close>

definition awaited_request :: "'a operation \<Rightarrow> 'a governor \<Rightarrow> (js_error + 'a) option \<times> 'a governor" where
  "awaited_request fn g =
     (let g' = await_settled (nextId g) (rateLimitedRequest fn g)
      in (settled_outcome (nextId g) (trace g'), g'))"

text \<open>
  The time after which a timer set for \<open>ms\<close> milliseconds fires. A timer holds a whole
  number of milliseconds, from 1 to \<open>TIMEOUT_MAX\<close>: the fraction of \<open>ms\<close> is dropped,
  and a timer set for less than one millisecond or for more than \<open>TIMEOUT_MAX\<close> fires
  after one millisecond.
\<close>

definition TIMEOUT_MAX :: rat where
  "TIMEOUT_MAX = 2147483647"

definition timeout_of :: "rat \<Rightarrow> nat" where
  "timeout_of ms = (if 1 \<le> ms \<and> ms \<le> TIMEOUT_MAX then nat \<lfloor>ms\<rfloor> else 1)"

text \<open>
  \<open>await delay(ms)\<close> in \<open>retryWithBackoff\<close>: the time passes until the timer fires, and
  the wait is recorded.
\<close>

definition delay :: "rat \<Rightarrow> 'a governor \<Rightarrow> 'a governor" where
  "delay ms g =
     (let g' = elapse (timeout_of ms) g
      in g'\<lparr>trace := trace g @ [Backoff ms (clock g) (clock g')]\<rparr>)"

definition quota_exhausted :: js_error where
  "quota_exhausted =
     Error (Some ''Free tier quota exhausted. Please upgrade to paid tier or wait for quota reset.'')"

text \<open>
  The \<open>catch\<close> block of \<open>retryWithBackoff\<close> (lines 90 to 125): it throws, or it waits
  and lets the loop go to the next attempt.
\<close>

datatype decision = Throw js_error | RetryAfter rat

definition on_error :: "nat \<Rightarrow> nat \<Rightarrow> nat \<Rightarrow> js_error \<Rightarrow> decision" where
  "on_error maxRetries baseDelay attempt error =
     (if error = Undefined then Throw typeError_message
      else if (message_includes error ''429'' \<or> message_includes error ''quota'')
            \<and> (message_includes error ''RESOURCE_EXHAUSTED''
                \<or> message_includes error ''quota''
                \<or> message_includes error ''free_tier_requests'')
      then (let quotaDelay = of_nat baseDelay * 2 ^ attempt
            in if attempt = maxRetries then Throw quota_exhausted else RetryAfter quotaDelay)
      else (let isRetryable = (message_includes error ''503''
                               \<or> message_includes error ''overloaded''
                               \<or> message_includes error ''UNAVAILABLE'')
            in if \<not> isRetryable \<or> attempt = maxRetries then Throw error
               else RetryAfter (of_nat baseDelay * (3 / 2) ^ (attempt - 1))))"

text \<open>
  The loop of \<open>retryWithBackoff\<close> from a given attempt on (the attempts are numbered from
  1). The operation \<open>fn\<close> is given by what its invocation does at each attempt. The
  delays are rational numbers, computed exactly; the floating-point arithmetic of the code
  computes \<open>baseDelay * 2^attempt\<close> and \<open>baseDelay * 1.5^(attempt - 1)\<close> exactly as long
  as \<open>baseDelay * 3^attempt\<close> stays below \<open>2^53\<close>.
\<close>

function retryLoop ::
  "(nat \<Rightarrow> 'a operation) \<Rightarrow> nat \<Rightarrow> nat \<Rightarrow> nat \<Rightarrow> js_error \<Rightarrow> 'a governor
     \<Rightarrow> (js_error + 'a) option \<times> 'a governor" where
  "retryLoop fn maxRetries baseDelay attempt lastError g =
     (if attempt \<le> maxRetries
      then (case awaited_request (fn attempt) g of
              (None, g1) \<Rightarrow> (None, g1)
            | (Some (Inr result), g1) \<Rightarrow> (Some (Inr result), g1)
            | (Some (Inl error), g1) \<Rightarrow>
                (case on_error maxRetries baseDelay attempt error of
                   Throw e \<Rightarrow> (Some (Inl e), g1)
                 | RetryAfter ms \<Rightarrow>
                     retryLoop fn maxRetries baseDelay (Suc attempt) error (delay ms g1)))
      else (Some (Inl lastError), g))"
  by pat_completeness auto
termination
  by (relation "measure (\<lambda>(fn, maxRetries, baseDelay, attempt, lastError, g). Suc maxRetries - attempt)")
     auto

declare retryLoop.simps [simp del]

definition retryWithBackoff ::
  "(nat \<Rightarrow> 'a operation) \<Rightarrow> nat \<Rightarrow> nat \<Rightarrow> 'a governor \<Rightarrow> (js_error + 'a) option \<times> 'a governor" where
  "retryWithBackoff fn maxRetries baseDelay g = retryLoop fn maxRetries baseDelay 1 Undefined g"

definition DEFAULT_MAX_RETRIES :: nat where
  "DEFAULT_MAX_RETRIES = 3"

definition DEFAULT_BASE_DELAY :: nat where
  "DEFAULT_BASE_DELAY = 6000"

section \<open>geminiService: error messages for the user\<close>

definition quota_message :: string where
  "quota_message = [CHR 0xF0, CHR 0x9F, CHR 0x9A, CHR 0xAB]
     @ '' Free tier quota exceeded! You can only make 15 requests per minute. Please wait or upgrade to paid tier.''"

definition busy_message :: string where
  "busy_message = [CHR 0xE2, CHR 0x8F, CHR 0xB3]
     @ '' AI service is currently busy. Please try again in a few moments.''"

definition api_key_message :: string where
  "api_key_message = [CHR 0xF0, CHR 0x9F, CHR 0x94, CHR 0x91]
     @ '' Invalid API key. Please check your configuration.''"

definition unavailable_message :: string where
  "unavailable_message = [CHR 0xE2, CHR 0x9D, CHR 0x8C]
     @ '' AI service temporarily unavailable. Please try again later.''"

text \<open>\<open>handleAPIError\<close>; reading the message of \<open>undefined\<close> raises.\<close>

definition handleAPIError :: "js_error \<Rightarrow> js_error + string" where
  "handleAPIError error =
     (if error = Undefined then Inl typeError_message
      else if message_includes error ''429'' \<or> message_includes error ''quota''
              \<or> message_includes error ''RESOURCE_EXHAUSTED''
      then Inr quota_message
      else if message_includes error ''503'' \<or> message_includes error ''overloaded''
      then Inr busy_message
      else if message_includes error ''API key'' \<or> message_includes error ''401''
      then Inr api_key_message
      else Inr unavailable_message)"

section \<open>geminiService: the daily plan\<close>

record UserProfile =
  identity :: string
  profile_context :: string

record Goal =
  goal_id :: string
  title :: string

record Task =
  task_id :: string
  task_text :: string
  isCompleted :: bool
  isGIA :: bool

text \<open>
  The parsed response at its declared type \<open>GeminiDailyPlanResponse\<close>. The cast of the
  result of \<open>JSON.parse\<close> checks nothing, and the code guards every property it reads, so
  every property may be absent (\<open>None\<close>), and so may an element of \<open>otherTasks\<close>.
\<close>

datatype gia_t = Gia (gia_task: "string option") (gia_reason: "string option")

datatype other_t = Other (other_task: "string option")

record GeminiDailyPlanResponse =
  gia :: "gia_t option"
  otherTasks :: "other_t option list option"
  motivationalQuote :: "string option"

text \<open>
  \<open>JSON.parse\<close> belongs to the platform and is a parameter of the model: on a text it
  raises a \<open>SyntaxError\<close>, or yields \<open>null\<close>, or yields some other value, read at the
  declared type.
\<close>

datatype parsed = SyntaxError | ParsedNull | Parsed GeminiDailyPlanResponse

text \<open>Reading \<open>planData.gia\<close> of \<open>null\<close> raises a \<open>TypeError\<close> (the wording of V8).\<close>

definition typeError_gia :: js_error where
  "typeError_gia = Error (Some ''Cannot read properties of null (reading 'gia')'')"

text \<open>
  \<open>String.prototype.trim\<close> on the UTF-8 bytes: the white space and line terminators of
  ECMAScript, removed from both ends.
\<close>

definition whitespace :: "string list" where
  "whitespace =
     [[CHR 0x09], [CHR 0x0A], [CHR 0x0B], [CHR 0x0C], [CHR 0x0D], [CHR 0x20],
      [CHR 0xC2, CHR 0xA0], [CHR 0xE1, CHR 0x9A, CHR 0x80],
      [CHR 0xE2, CHR 0x80, CHR 0x80], [CHR 0xE2, CHR 0x80, CHR 0x81],
      [CHR 0xE2, CHR 0x80, CHR 0x82], [CHR 0xE2, CHR 0x80, CHR 0x83],
      [CHR 0xE2, CHR 0x80, CHR 0x84], [CHR 0xE2, CHR 0x80, CHR 0x85],
      [CHR 0xE2, CHR 0x80, CHR 0x86], [CHR 0xE2, CHR 0x80, CHR 0x87],
      [CHR 0xE2, CHR 0x80, CHR 0x88], [CHR 0xE2, CHR 0x80, CHR 0x89],
      [CHR 0xE2, CHR 0x80, CHR 0x8A], [CHR 0xE2, CHR 0x80, CHR 0xA8],
      [CHR 0xE2, CHR 0x80, CHR 0xA9], [CHR 0xE2, CHR 0x80, CHR 0xAF],
      [CHR 0xE2, CHR 0x81, CHR 0x9F], [CHR 0xE3, CHR 0x80, CHR 0x80],
      [CHR 0xEF, CHR 0xBB, CHR 0xBF]]"

function strip :: "string list \<Rightarrow> string \<Rightarrow> string" where
  "strip ws s =
     (case List.find (\<lambda>w. prefix w s) ws of
        None \<Rightarrow> s
      | Some w \<Rightarrow> if w = [] then s else strip ws (drop (length w) s))"
  by pat_completeness auto
termination
  by (relation "measure (\<lambda>(ws, s). length s)") (auto simp: find_Some_iff prefix_def)

declare strip.simps [simp del]

definition trim :: "string \<Rightarrow> string" where
  "trim s = rev (strip (map rev whitespace) (rev (strip whitespace s)))"

text \<open>The decimal digits of a number, as a template literal prints it.\<close>

function string_of_nat :: "nat \<Rightarrow> string" where
  "string_of_nat n =
     (if n < 10 then [''0123456789'' ! n]
      else string_of_nat (n div 10) @ [''0123456789'' ! (n mod 10)])"
  by pat_completeness auto
termination
  by (relation "measure id") auto

declare string_of_nat.simps [simp del]

text \<open>
  The \<open>forEach\<close> over \<open>planData.otherTasks\<close> (lines 251 to 260); \<open>now\<close> is the reading
  of \<open>Date.now()\<close>.
\<close>

fun pushOtherTasks :: "nat \<Rightarrow> nat \<Rightarrow> other_t option list \<Rightarrow> Task list \<Rightarrow> Task list" where
  "pushOtherTasks now index [] tasks = tasks"
| "pushOtherTasks now index (t # ts) tasks =
     pushOtherTasks now (Suc index) ts
       (case t of
          Some (Other (Some txt)) \<Rightarrow>
            if txt \<noteq> []
            then tasks @ [\<lparr>task_id = ''task_'' @ string_of_nat now @ ''_'' @ string_of_nat index,
                           task_text = txt, isCompleted = False, isGIA = False\<rparr>]
            else tasks
        | _ \<Rightarrow> tasks)"

text \<open>Lines 239 to 270: the tasks built from the parsed response.\<close>

definition buildTasks :: "nat \<Rightarrow> GeminiDailyPlanResponse \<Rightarrow> Task list" where
  "buildTasks now planData =
     (let tasks0 = [];
          tasks1 = (case gia planData of
                      Some (Gia (Some txt) reason) \<Rightarrow>
                        if txt \<noteq> []
                        then tasks0 @ [\<lparr>task_id = ''task_'' @ string_of_nat now @ ''_gia'',
                                        task_text = txt, isCompleted = False, isGIA = True\<rparr>]
                        else tasks0
                    | _ \<Rightarrow> tasks0);
          tasks2 = (case otherTasks planData of
                      Some ts \<Rightarrow> pushOtherTasks now 0 ts tasks1
                    | None \<Rightarrow> tasks1)
      in (case motivationalQuote planData of
            Some txt \<Rightarrow>
              if txt \<noteq> []
              then tasks2 @ [\<lparr>task_id = ''task_'' @ string_of_nat now @ ''_quote'',
                              task_text = txt, isCompleted = False, isGIA = False\<rparr>]
              else tasks2
          | None \<Rightarrow> tasks2))"

text \<open>
  The generation service is an external collaborator: its \<open>k\<close>-th call takes some time and
  either fails or yields a response, of which only the text matters (\<open>None\<close> when there is
  no response or no text). The request sent to it (the prompt, the instruction, the schema)
  bears on nothing but that answer, and is left out.
\<close>

type_synonym upstream = "nat \<Rightarrow> nat \<times> (js_error + string option)"

text \<open>Lines 225 to 277: what the operation does with the response, at time \<open>now\<close>.\<close>

definition planFromResponse :: "(string \<Rightarrow> parsed) \<Rightarrow> nat \<Rightarrow> string option \<Rightarrow> js_error + Task list" where
  "planFromResponse JSON_parse now response =
     (case response of
        None \<Rightarrow> Inl (Error (Some ''Empty response from Gemini API''))
      | Some text \<Rightarrow>
          if text = [] then Inl (Error (Some ''Empty response from Gemini API''))
          else (case JSON_parse (trim text) of
                  SyntaxError \<Rightarrow> Inl (Error (Some ''Invalid response format from AI''))
                | ParsedNull \<Rightarrow> Inl typeError_gia
                | Parsed planData \<Rightarrow>
                    (let tasks = buildTasks now planData
                     in if length tasks = 0 then Inl (Error (Some ''No valid tasks generated''))
                        else Inr tasks)))"

definition dailyPlanOperation :: "upstream \<Rightarrow> (string \<Rightarrow> parsed) \<Rightarrow> nat \<Rightarrow> Task list operation" where
  "dailyPlanOperation generateContent JSON_parse k =
     Operation (fst (generateContent k))
       (\<lambda>now. case snd (generateContent k) of
                 Inl e \<Rightarrow> Inl e
               | Inr response \<Rightarrow> planFromResponse JSON_parse now response)"

text \<open>
  \<open>getDailyPlan\<close>. The profile and the goal may be missing (\<open>None\<close>); a failure of the
  validation is thrown before anything is built or submitted.
\<close>

definition getDailyPlan ::
  "upstream \<Rightarrow> (string \<Rightarrow> parsed) \<Rightarrow> UserProfile option \<Rightarrow> Goal option \<Rightarrow> Task list governor
     \<Rightarrow> (js_error + Task list) option \<times> Task list governor" where
  "getDailyPlan generateContent JSON_parse userProfile userGoal g =
     (if (case userGoal of None \<Rightarrow> True | Some gl \<Rightarrow> title gl = [])
      then (Some (Inl (Error (Some ''Goal is required to generate daily plan''))), g)
      else if (case userProfile of None \<Rightarrow> True | Some p \<Rightarrow> identity p = [])
      then (Some (Inl (Error (Some ''User profile with identity is required''))), g)
      else (case retryWithBackoff (dailyPlanOperation generateContent JSON_parse)
                   DEFAULT_MAX_RETRIES DEFAULT_BASE_DELAY g of
              (None, g') \<Rightarrow> (None, g')
            | (Some (Inr tasks), g') \<Rightarrow> (Some (Inr tasks), g')
            | (Some (Inl error), g') \<Rightarrow>
                (case handleAPIError error of
                   Inl e \<Rightarrow> (Some (Inl e), g')
                 | Inr userFriendlyMessage \<Rightarrow> (Some (Inl (Error (Some userFriendlyMessage))), g'))))"

section \<open>geminiService: the reflection response\<close>






text \<open>The number of bits by which \<open>N\<close> exceeds 53 bits.\<close>

function excess :: "nat \<Rightarrow> nat" where
  "excess N = (if N < 2 ^ 53 then 0 else Suc (excess (N div 2)))"
  by pat_completeness auto
termination
  by (relation "measure id") auto

declare excess.simps [simp del]






section \<open>Invariants of the governor\<close>

text \<open>A trace in which every operation started has settled.\<close>

fun complete :: "'a event list \<Rightarrow> bool" where
  "complete [] = True"
| "complete (Started i fn t # Settled j t' r # es) = (i = j \<and> r = result_at fn t' \<and> complete es)"
| "complete (e # es) = False"

text \<open>The request suspended at its spacing delay, taken from the queue and not yet started.\<close>

fun waiting :: "(nat \<times> 'a operation \<times> phase) option \<Rightarrow> (nat \<times> 'a operation) list" where
  "waiting (Some (i, fn, Spacing d)) = [(i, fn)]"
| "waiting c = []"

text \<open>The trace ends with the start of the operation that is running, if one is.\<close>

fun shape :: "'a event list \<Rightarrow> (nat \<times> 'a operation \<times> phase) option \<Rightarrow> bool" where
  "shape tr (Some (i, fn, Running d)) = (\<exists>tr' t. tr = tr' @ [Started i fn t] \<and> complete tr')"
| "shape tr c = complete tr"

text \<open>
  The state agrees with the operations submitted so far: started, waiting and queued requests
  together are the submitted ones, numbered, in the order of their submission.
\<close>

definition consistent :: "'a operation list \<Rightarrow> 'a governor \<Rightarrow> bool" where
  "consistent subs g \<longleftrightarrow>
     nextId g = length subs
   \<and> dispatched (trace g) @ waiting (current g) @ requestQueue g = zip [0..<length subs] subs
   \<and> (isProcessingQueue g \<longleftrightarrow> current g \<noteq> None)
   \<and> (current g = None \<longrightarrow> requestQueue g = [])
   \<and> shape (trace g) (current g)"

text \<open>
  Successive starts lie at least the minimum interval apart, and \<open>lastRequestTime\<close> is
  the time of the last start.
\<close>

definition spaced :: "'a governor \<Rightarrow> bool" where
  "spaced g \<longleftrightarrow>
     successively (\<lambda>t u. int t + MIN_REQUEST_INTERVAL \<le> int u) (start_times (trace g))
   \<and> (start_times (trace g) \<noteq> [] \<longrightarrow> last (start_times (trace g)) = lastRequestTime g)
   \<and> lastRequestTime g \<le> clock g
   \<and> (\<forall>i fn d. current g = Some (i, fn, Spacing d)
         \<longrightarrow> int (lastRequestTime g) + MIN_REQUEST_INTERVAL \<le> int d)"

section \<open>Notions for the properties of the retry wrapper\<close>

text \<open>
  The governor is idle: the loop of \<open>processQueue\<close> is not running, nothing is queued, and
  the number of the next request has not been used.
\<close>

fun fresh :: "nat \<Rightarrow> 'a event \<Rightarrow> bool" where
  "fresh n (Settled i t r) = (i < n)"
| "fresh n e = True"

definition idle :: "'a governor \<Rightarrow> bool" where
  "idle g \<longleftrightarrow> current g = None \<and> requestQueue g = [] \<and> \<not> isProcessingQueue g
     \<and> list_all (fresh (nextId g)) (trace g)"

text \<open>The time at which a request submitted to an idle governor is started.\<close>

definition start_time :: "'a governor \<Rightarrow> nat" where
  "start_time g =
     (if int (clock g) - int (lastRequestTime g) < MIN_REQUEST_INTERVAL
      then clock g + nat (MIN_REQUEST_INTERVAL - (int (clock g) - int (lastRequestTime g)))
      else clock g)"

text \<open>
  The time at which a request begun at time \<open>now\<close> is started, the last start having been
  at time \<open>lastStart\<close> (lines 32 to 42).
\<close>

definition spaced_start :: "nat \<Rightarrow> nat \<Rightarrow> nat" where
  "spaced_start lastStart now =
     (if int now - int lastStart < MIN_REQUEST_INTERVAL
      then now + nat (MIN_REQUEST_INTERVAL - (int now - int lastStart))
      else now)"

text \<open>
  The events of the attempts numbered \<open>ks\<close>, made one after the other, the first as
  request \<open>i\<close> started at time \<open>s\<close>. Each attempt runs for its duration and settles.
  After every attempt but the last the wrapper waits for the whole milliseconds of
  \<open>w k\<close>, from the settling of the attempt on; the next attempt is begun when the wait
  ends, and started then or, if that is later, when the minimum interval since the previous
  start has passed.
\<close>

fun attempt_events ::
  "nat \<Rightarrow> nat \<Rightarrow> (nat \<Rightarrow> 'a operation) \<Rightarrow> (nat \<Rightarrow> rat) \<Rightarrow> nat list \<Rightarrow> 'a event list" where
  "attempt_events i s fn w [] = []"
| "attempt_events i s fn w (k # ks) =
     [Started i (fn k) s,
      Settled i (s + duration (fn k)) (result_at (fn k) (s + duration (fn k)))]
     @ (if ks = [] then []
        else Backoff (w k) (s + duration (fn k)) (s + duration (fn k) + nat \<lfloor>w k\<rfloor>)
             # attempt_events (Suc i) (spaced_start s (s + duration (fn k) + nat \<lfloor>w k\<rfloor>))
                 fn w ks)"

text \<open>
  The outcome \<open>x\<close> of an attempt ends the loop of \<open>retryWithBackoff\<close> with \<open>r\<close>: a
  result is returned, an error is thrown by the \<open>catch\<close> block.
\<close>

definition final_outcome :: "nat \<Rightarrow> nat \<Rightarrow> nat \<Rightarrow> js_error + 'a \<Rightarrow> js_error + 'a \<Rightarrow> bool" where
  "final_outcome M B n x r =
     (case x of
        Inr v \<Rightarrow> r = Inr v
      | Inl e \<Rightarrow> (case on_error M B n e of Throw e' \<Rightarrow> r = Inl e' | RetryAfter ms \<Rightarrow> False))"

text \<open>What a trace shows of the retry wrapper: the calls of the operation and the waits between them.\<close>

datatype action = Call | Wait rat

fun actions :: "'a event list \<Rightarrow> action list" where
  "actions [] = []"
| "actions (Started i fn t # es) = Call # actions es"
| "actions (Backoff ms t u # es) = Wait ms # actions es"
| "actions (Settled i t r # es) = actions es"

text \<open>The errors that the \<open>catch\<close> block treats as quota errors (lines 94 to 99).\<close>

definition quota_error :: "js_error \<Rightarrow> bool" where
  "quota_error e \<longleftrightarrow>
     (message_includes e ''429'' \<or> message_includes e ''quota'')
   \<and> (message_includes e ''RESOURCE_EXHAUSTED'' \<or> message_includes e ''quota''
      \<or> message_includes e ''free_tier_requests'')"

text \<open>The other retryable errors (lines 114 to 116).\<close>

definition retryable_error :: "js_error \<Rightarrow> bool" where
  "retryable_error e \<longleftrightarrow>
     message_includes e ''503'' \<or> message_includes e ''overloaded''
   \<or> message_includes e ''UNAVAILABLE''"

text \<open>Two operations for the examples: one that always fails, one that fails at its first call only.\<close>

definition failing :: "js_error \<Rightarrow> nat \<Rightarrow> 'a operation" where
  "failing e k = Operation 0 (\<lambda>now. Inl e)"

definition failing_once :: "js_error \<Rightarrow> 'a \<Rightarrow> nat \<Rightarrow> 'a operation" where
  "failing_once e v k = Operation 0 (\<lambda>now. if k = 1 then Inl e else Inr v)"

text \<open>
  Where the outcome of \<open>retryWithBackoff\<close> comes from: a result of some attempt, or the
  error thrown by the \<open>catch\<close> block for the error of some attempt.
\<close>

definition retry_outcome ::
  "(nat \<Rightarrow> 'a operation) \<Rightarrow> nat \<Rightarrow> nat \<Rightarrow> js_error \<Rightarrow> js_error + 'a \<Rightarrow> bool" where
  "retry_outcome fn M a le r =
     (case r of
        Inr v \<Rightarrow> (\<exists>k t. a \<le> k \<and> k \<le> M \<and> result_at (fn k) t = Inr v)
      | Inl e \<Rightarrow> (M < a \<and> e = le)
             \<or> (e = typeError_message \<and> (\<exists>k t. result_at (fn k) t = Inl Undefined))
             \<or> (e = quota_exhausted \<and> (\<exists>k t e'. result_at (fn k) t = Inl e' \<and> quota_error e'))
             \<or> (e \<noteq> Undefined \<and> \<not> quota_error e \<and> (\<exists>k t. result_at (fn k) t = Inl e)))"

section \<open>Notions for the properties of the generators\<close>

text \<open>The four messages that \<open>handleAPIError\<close> can return.\<close>

definition user_messages :: "string list" where
  "user_messages = [quota_message, busy_message, api_key_message, unavailable_message]"

text \<open>The task built for a supporting task, for the GIA and for the quote.\<close>

definition other_task_of :: "nat \<Rightarrow> nat \<times> string \<Rightarrow> Task" where
  "other_task_of now p =
     \<lparr>task_id = ''task_'' @ string_of_nat now @ ''_'' @ string_of_nat (fst p),
      task_text = snd p, isCompleted = False, isGIA = False\<rparr>"

definition gia_task_of :: "nat \<Rightarrow> string \<Rightarrow> Task" where
  "gia_task_of now txt =
     \<lparr>task_id = ''task_'' @ string_of_nat now @ ''_gia'',
      task_text = txt, isCompleted = False, isGIA = True\<rparr>"

definition quote_task_of :: "nat \<Rightarrow> string \<Rightarrow> Task" where
  "quote_task_of now txt =
     \<lparr>task_id = ''task_'' @ string_of_nat now @ ''_quote'',
      task_text = txt, isCompleted = False, isGIA = False\<rparr>"

text \<open>
  A response of the shape \<open>{gia: {task, reason}, otherTasks: [{task}, ...],
  motivationalQuote}\<close>, with every property present.
\<close>

definition plan_response :: "string \<Rightarrow> string \<Rightarrow> string list \<Rightarrow> string \<Rightarrow> GeminiDailyPlanResponse" where
  "plan_response giaTask reason others quote =
     \<lparr>gia = Some (Gia (Some giaTask) (Some reason)),
      otherTasks = Some (map (\<lambda>s. Some (Other (Some s))) others),
      motivationalQuote = Some quote\<rparr>"

text \<open>
  Inputs for the examples: a service that always answers with the same text, or always fails
  with the same error; a parser that reads every text as a given response; a profile and a goal.
\<close>

definition answering :: "string \<Rightarrow> upstream" where
  "answering txt k = (0, Inr (Some txt))"

definition rejecting :: "js_error \<Rightarrow> upstream" where
  "rejecting e k = (0, Inl e)"

definition parsing_as :: "GeminiDailyPlanResponse \<Rightarrow> string \<Rightarrow> parsed" where
  "parsing_as planData s = Parsed planData"

definition a_profile :: UserProfile where
  "a_profile = \<lparr>identity = ''a runner'', profile_context = ''''\<rparr>"

definition a_goal :: Goal where
  "a_goal = \<lparr>goal_id = ''g1'', title = ''Run a marathon''\<rparr>"

text \<open>The validation of \<open>getDailyPlan\<close> passes: a goal with a title and a profile with an identity.\<close>

definition valid_inputs :: "UserProfile option \<Rightarrow> Goal option \<Rightarrow> bool" where
  "valid_inputs userProfile userGoal \<longleftrightarrow>
     (case userGoal of None \<Rightarrow> False | Some gl \<Rightarrow> title gl \<noteq> [])
   \<and> (case userProfile of None \<Rightarrow> False | Some p \<Rightarrow> identity p \<noteq> [])"

text \<open>A parser for the examples on which every text is a syntax error.\<close>

definition unparseable :: "string \<Rightarrow> parsed" where
  "unparseable s = SyntaxError"

text \<open>
  The response text of the examples, written here without the double quotes of JSON; the
  parser of an example reads it as the response given beside it.
\<close>

definition plan_text :: string where
  "plan_text = ''{gia: {task: Run 5k, reason: builds momentum}, otherTasks: [{task: Drink water}], motivationalQuote: Keep going}''"

definition plan_text_empty_gia :: string where
  "plan_text_empty_gia = ''{gia: {task: , reason: builds momentum}, otherTasks: [{task: Drink water}], motivationalQuote: Keep going}''"



text \<open>
  The categories of errors. \<open>category_of\<close> is the category that the tests of
  \<open>handleAPIError\<close> put an error in (lines 133 to 142, in their order), and
  \<open>message_of\<close> the message that it returns for each category.
\<close>

datatype category = QuotaExceeded | ServiceUnavailable | AuthError | Unknown

definition category_of :: "js_error \<Rightarrow> category" where
  "category_of e =
     (if message_includes e ''429'' \<or> message_includes e ''quota''
         \<or> message_includes e ''RESOURCE_EXHAUSTED''
      then QuotaExceeded
      else if message_includes e ''503'' \<or> message_includes e ''overloaded''
      then ServiceUnavailable
      else if message_includes e ''API key'' \<or> message_includes e ''401''
      then AuthError
      else Unknown)"

fun message_of :: "category \<Rightarrow> string" where
  "message_of QuotaExceeded = quota_message"
| "message_of ServiceUnavailable = busy_message"
| "message_of AuthError = api_key_message"
| "message_of Unknown = unavailable_message"

text \<open>
  The classifier as the specification words it (section 4.2), to be compared with
  \<open>category_of\<close>: the markers of a quota error are the status code 429, "quota",
  "RESOURCE_EXHAUSTED" and "free_tier_requests"; those of an unavailable service are the
  status code 503, "overloaded" and "UNAVAILABLE"; those of an authentication error are the
  status code 401 and "API key".
\<close>

definition classifier_of_spec :: "js_error \<Rightarrow> category" where
  "classifier_of_spec e =
     (if message_includes e ''429'' \<or> message_includes e ''quota''
         \<or> message_includes e ''RESOURCE_EXHAUSTED'' \<or> message_includes e ''free_tier_requests''
      then QuotaExceeded
      else if message_includes e ''503'' \<or> message_includes e ''overloaded''
              \<or> message_includes e ''UNAVAILABLE''
      then ServiceUnavailable
      else if message_includes e ''401'' \<or> message_includes e ''API key''
      then AuthError
      else Unknown)"
section \<open>Properties of getUserData\<close>

lemma or_else_truthy: "truthy d \<Longrightarrow> truthy (or_else p d)"
  by (cases p) auto

lemma or_else_absent: "\<not> holds data k \<Longrightarrow> or_else (get_prop data k) d = d"
  by (cases data) (auto split: option.splits)

text \<open>
  Claim C10. Whenever the read of \<open>users/{userId}\<close> succeeds, \<open>getUserData\<close> returns a
  result (it does not fail) whose profile and goal are both non-null (truthy) values; the
  profile is the fixed default profile when the store holds no profile, and the goal is the
  fixed default goal when the store holds no goal, also when only one of the two is missing.
\<close>

theorem getUserData_defaults:
  assumes "db (''users/'' @ userId) = Inr data"
  shows "\<exists>p g. getUserData db userId = Inr \<lparr>profile = p, goal = g\<rparr>
           \<and> truthy p \<and> truthy g
           \<and> (\<not> holds data ''profile'' \<longrightarrow> p = default_profile)
           \<and> (\<not> holds data ''goal'' \<longrightarrow> g = default_goal)"
proof -
  have tp: "truthy default_profile" and tg: "truthy default_goal"
    by (simp_all add: default_profile_def default_goal_def)
  show ?thesis
  proof (cases "truthy data
      \<and> (truthy_prop (get_prop data ''profile'') \<or> truthy_prop (get_prop data ''goal''))")
    case True
    have "getUserData db userId =
        Inr \<lparr>profile = or_else (get_prop data ''profile'') default_profile,
             goal = or_else (get_prop data ''goal'') default_goal\<rparr>"
      unfolding getUserData_def assms by (simp only: sum.case if_P [OF True])
    then show ?thesis
      using or_else_truthy [OF tp] or_else_truthy [OF tg] or_else_absent by blast
  next
    case False
    have "getUserData db userId = Inr \<lparr>profile = default_profile, goal = default_goal\<rparr>"
      unfolding getUserData_def assms by (simp only: sum.case if_not_P [OF False])
    then show ?thesis
      using tp tg by blast
  qed
qed

theorem getUserData_defaults_witness:
  "(\<lambda>p. if p = ''users/u1'' then Inr (VObj [(''goal'', VObj [(''title'', VStr ''Run'')])]) else Inr VNull)
      (''users/'' @ ''u1'') = Inr (VObj [(''goal'', VObj [(''title'', VStr ''Run'')])])
   \<and> getUserData
        (\<lambda>p. if p = ''users/u1'' then Inr (VObj [(''goal'', VObj [(''title'', VStr ''Run'')])]) else Inr VNull)
        ''u1''
      = Inr \<lparr>profile = default_profile, goal = VObj [(''title'', VStr ''Run'')]\<rparr>"
  using getUserData_defaults
    [of "\<lambda>p. if p = ''users/u1'' then Inr (VObj [(''goal'', VObj [(''title'', VStr ''Run'')])]) else Inr VNull"
        "''u1''" "VObj [(''goal'', VObj [(''title'', VStr ''Run'')])]"]
  by (simp add: getUserData_def)

section \<open>Properties of the governor\<close>

lemma dispatched_append: "dispatched (xs @ ys) = dispatched xs @ dispatched ys"
  by (induction xs rule: dispatched.induct) auto

lemma start_times_append: "start_times (xs @ ys) = start_times xs @ start_times ys"
  by (induction xs rule: start_times.induct) auto

lemma complete_serial: "complete tr \<Longrightarrow> serial tr"
  by (induction tr rule: complete.induct) auto

lemma complete_started: "complete tr \<Longrightarrow> serial (tr @ [Started i fn t])"
  by (induction tr rule: complete.induct) auto

lemma complete_settled:
  "complete tr \<Longrightarrow> complete (tr @ [Started i fn t, Settled i t' (result_at fn t')])"
  by (induction tr rule: complete.induct) auto

lemma shape_serial: "shape tr c \<Longrightarrow> serial tr"
  by (induction tr c rule: shape.induct) (auto simp: complete_serial complete_started)

lemma elapse_fields [simp]:
  "requestQueue (elapse n g) = requestQueue g"
  "isProcessingQueue (elapse n g) = isProcessingQueue g"
  "current (elapse n g) = current g"
  "nextId (elapse n g) = nextId g"
  "trace (elapse n g) = trace g"
  "lastRequestTime (elapse n g) = lastRequestTime g"
  "clock (elapse n g) = clock g + n"
  by (simp_all add: elapse_def Let_def)

lemma advance_to_fields [simp]:
  "requestQueue (advance_to d g) = requestQueue g"
  "isProcessingQueue (advance_to d g) = isProcessingQueue g"
  "current (advance_to d g) = current g"
  "nextId (advance_to d g) = nextId g"
  "trace (advance_to d g) = trace g"
  "lastRequestTime (advance_to d g) = lastRequestTime g"
  "clock (advance_to d g) = max (clock g) d"
  by (simp_all add: advance_to_def)

lemma dispatch_fields [simp]:
  "requestQueue (dispatch i fn g) = requestQueue g"
  "isProcessingQueue (dispatch i fn g) = isProcessingQueue g"
  "current (dispatch i fn g) = Some (i, fn, Running (clock g + duration fn))"
  "nextId (dispatch i fn g) = nextId g"
  "trace (dispatch i fn g) = trace g @ [Started i fn (clock g)]"
  "lastRequestTime (dispatch i fn g) = clock g"
  "clock (dispatch i fn g) = clock g"
  by (simp_all add: dispatch_def)

lemma begin_request_fields [simp]:
  "requestQueue (begin_request i fn g) = requestQueue g"
  "isProcessingQueue (begin_request i fn g) = isProcessingQueue g"
  "nextId (begin_request i fn g) = nextId g"
  "clock (begin_request i fn g) = clock g"
  by (simp_all add: begin_request_def Let_def)

lemma consistent_init: "consistent [] (init t0)"
  by (simp add: consistent_def init_def)

lemma consistent_elapse: "consistent subs g \<Longrightarrow> consistent subs (elapse n g)"
  by (simp add: consistent_def)

lemma consistent_begin:
  assumes "nextId g = length subs"
    and "dispatched (trace g) @ (i, fn) # requestQueue g = zip [0..<length subs] subs"
    and "isProcessingQueue g" and "complete (trace g)"
  shows "consistent subs (begin_request i fn g)"
  using assms
  by (auto simp: consistent_def begin_request_def Let_def dispatched_append)

lemma consistent_drain:
  assumes "nextId g = length subs"
    and "dispatched (trace g) @ requestQueue g = zip [0..<length subs] subs"
    and "isProcessingQueue g" and "complete (trace g)"
  shows "consistent subs (drain g)"
proof (cases "requestQueue g")
  case Nil
  with assms show ?thesis by (simp add: drain_def consistent_def)
next
  case (Cons r rest)
  with assms have "consistent subs (begin_request (fst r) (snd r) (g\<lparr>requestQueue := rest, current := None\<rparr>))"
    by (intro consistent_begin) simp_all
  with Cons show ?thesis by (simp add: drain_def)
qed

lemma consistent_resume: "consistent subs g \<Longrightarrow> consistent subs (resume g)"
proof (cases "current g")
  case None
  assume "consistent subs g"
  with None show ?thesis by (simp add: resume_def)
next
  case (Some c)
  assume c: "consistent subs g"
  obtain i fn ph where cur: "current g = Some (i, fn, ph)"
    using Some by (cases c) auto
  show ?thesis
  proof (cases ph)
    case (Spacing due)
    with c cur show ?thesis
      by (auto simp: consistent_def resume_def dispatched_append)
  next
    case (Running due)
    with c cur obtain tr' t where tr: "trace g = tr' @ [Started i fn t]" "complete tr'"
      by (auto simp: consistent_def)
    let ?g' = "advance_to due g"
    let ?g'' = "?g'\<lparr>trace := trace ?g' @ [Settled i (clock ?g') (result_at fn (clock ?g'))]\<rparr>"
    have "consistent subs (drain ?g'')"
    proof (rule consistent_drain)
      show "nextId ?g'' = length subs" using c by (simp add: consistent_def)
      show "dispatched (trace ?g'') @ requestQueue ?g'' = zip [0..<length subs] subs"
        using c cur Running by (simp add: consistent_def dispatched_append)
      show "isProcessingQueue ?g''" using c cur by (simp add: consistent_def)
      show "complete (trace ?g'')" using tr complete_settled [OF tr(2)] by simp
    qed
    with cur Running show ?thesis by (simp add: resume_def Let_def)
  qed
qed

lemma consistent_submit:
  assumes "consistent subs g"
  shows "consistent (subs @ [fn]) (rateLimitedRequest fn g)"
proof (cases "isProcessingQueue g")
  case True
  with assms show ?thesis
    by (auto simp: consistent_def rateLimitedRequest_def processQueue_def)
next
  case False
  with assms have idle: "current g = None" "requestQueue g = []"
    unfolding consistent_def by blast+
  let ?g1 = "g\<lparr>requestQueue := requestQueue g @ [(nextId g, fn)], nextId := Suc (nextId g),
               isProcessingQueue := True\<rparr>"
  have "consistent (subs @ [fn]) (drain ?g1)"
  proof (rule consistent_drain)
    show "nextId ?g1 = length (subs @ [fn])" using assms by (simp add: consistent_def)
    show "dispatched (trace ?g1) @ requestQueue ?g1 = zip [0..<length (subs @ [fn])] (subs @ [fn])"
      using assms idle by (simp add: consistent_def)
    show "isProcessingQueue ?g1" by simp
    show "complete (trace ?g1)" using assms idle by (simp add: consistent_def)
  qed
  with False show ?thesis
    by (simp add: rateLimitedRequest_def processQueue_def)
qed

lemma run_append: "run (cs @ ds) g = run ds (run cs g)"
  by (induction cs arbitrary: g) auto

lemma submitted_append: "submitted (cs @ ds) = submitted cs @ submitted ds"
  by (induction cs rule: submitted.induct) auto

lemma submitted_resumes: "submitted (replicate n Resume) = []"
  by (induction n) auto

lemma consistent_step:
  "consistent subs g \<Longrightarrow> consistent (subs @ submitted [c]) (step c g)"
  by (cases c) (auto intro: consistent_submit consistent_elapse consistent_resume)

lemma consistent_run:
  "consistent subs g \<Longrightarrow> consistent (subs @ submitted cs) (run cs g)"
proof (induction cs arbitrary: subs g)
  case Nil
  then show ?case by simp
next
  case (Cons c cs)
  from Cons.IH [OF consistent_step [OF Cons.prems, of c]]
  have "consistent ((subs @ submitted [c]) @ submitted cs) (run cs (step c g))" .
  moreover have "submitted (c # cs) = submitted [c] @ submitted cs"
    using submitted_append [of "[c]" cs] by simp
  ultimately show ?case by simp
qed

lemma pending_begin: "pending (begin_request i fn g) \<le> 2 * length (requestQueue g) + 2"
  by (simp add: pending_def begin_request_def Let_def)

lemma pending_drain: "pending (drain g) \<le> 2 * length (requestQueue g)"
proof (cases "requestQueue g")
  case Nil
  then show ?thesis by (simp add: drain_def pending_def)
next
  case (Cons r rest)
  have "pending (begin_request (fst r) (snd r) (g\<lparr>requestQueue := rest, current := None\<rparr>))
          \<le> 2 * length rest + 2"
    using pending_begin [of "fst r" "snd r" "g\<lparr>requestQueue := rest, current := None\<rparr>"] by simp
  with Cons show ?thesis by (simp add: drain_def)
qed

lemma pending_resume: "current g \<noteq> None \<Longrightarrow> pending (resume g) < pending g"
proof -
  assume "current g \<noteq> None"
  then obtain i fn ph where cur: "current g = Some (i, fn, ph)"
    by (cases "current g") auto
  show ?thesis
  proof (cases ph)
    case (Spacing due)
    with cur show ?thesis by (simp add: resume_def pending_def)
  next
    case (Running due)
    let ?g' = "advance_to due g"
    let ?g'' = "?g'\<lparr>trace := trace ?g' @ [Settled i (clock ?g') (result_at fn (clock ?g'))]\<rparr>"
    have "pending (drain ?g'') \<le> 2 * length (requestQueue g)"
      using pending_drain [of ?g''] by simp
    with cur Running show ?thesis by (simp add: resume_def pending_def Let_def)
  qed
qed

lemma pending_resume_le: "pending (resume g) \<le> pending g"
  using pending_resume [of g] by (cases "current g") (auto simp: resume_def)

lemma pending_submit: "pending (rateLimitedRequest fn g) \<le> pending g + 2"
proof (cases "isProcessingQueue g")
  case True
  then show ?thesis by (simp add: rateLimitedRequest_def processQueue_def pending_def)
next
  case False
  let ?g1 = "g\<lparr>requestQueue := requestQueue g @ [(nextId g, fn)], nextId := Suc (nextId g),
               isProcessingQueue := True\<rparr>"
  have "pending (drain ?g1) \<le> 2 * length (requestQueue ?g1)" by (rule pending_drain)
  with False show ?thesis
    by (simp add: rateLimitedRequest_def processQueue_def pending_def)
qed

lemma pending_run: "pending (run cs g) \<le> pending g + 2 * length (submitted cs)"
proof (induction cs arbitrary: g)
  case Nil
  then show ?case by simp
next
  case (Cons c cs)
  show ?case
  proof (cases c)
    case (Submit fn)
    with Cons [of "rateLimitedRequest fn g"] pending_submit [of fn g] show ?thesis by simp
  next
    case (Elapse n)
    with Cons [of "elapse n g"] show ?thesis by (simp add: pending_def)
  next
    case Resume
    with Cons [of "resume g"] pending_resume_le [of g] show ?thesis by simp
  qed
qed

lemma pending_resumes:
  "consistent subs g \<Longrightarrow> pending (run (replicate n Resume) g) \<le> pending g - n"
proof (induction n arbitrary: g)
  case 0
  then show ?case by simp
next
  case (Suc n)
  have c: "consistent subs (resume g)" using Suc.prems by (rule consistent_resume)
  show ?case
  proof (cases "current g")
    case None
    with Suc.prems have "pending g = 0" by (simp add: consistent_def pending_def)
    with Suc.IH [OF c] pending_resume_le [of g] show ?thesis by simp
  next
    case (Some a)
    then have "pending (resume g) < pending g" by (intro pending_resume) simp
    with Suc.IH [OF c] show ?thesis by simp
  qed
qed

lemma pending_zero:
  assumes "consistent subs g" and "pending g = 0"
  shows "dispatched (trace g) = zip [0..<length subs] subs" and "complete (trace g)"
proof -
  from assms(2) have "current g = None" "requestQueue g = []"
    by (cases "current g" rule: weight.cases; simp add: pending_def)+
  with assms(1) show "dispatched (trace g) = zip [0..<length subs] subs" and "complete (trace g)"
    by (simp_all add: consistent_def)
qed

lemma spaced_init: "spaced (init t0)"
  by (simp add: spaced_def init_def)

lemma spaced_elapse: "spaced g \<Longrightarrow> spaced (elapse n g)"
  by (simp add: spaced_def)

lemma spaced_dispatch:
  assumes "spaced g" and "int (lastRequestTime g) + MIN_REQUEST_INTERVAL \<le> int (clock g)"
  shows "spaced (dispatch i fn g)"
  using assms
  by (auto simp: spaced_def start_times_append successively_append_iff)

lemma spaced_begin:
  assumes "spaced g" and "current g = None"
  shows "spaced (begin_request i fn g)"
proof (cases "int (clock g) - int (lastRequestTime g) < MIN_REQUEST_INTERVAL")
  case True
  with assms show ?thesis
    by (auto simp: begin_request_def Let_def spaced_def MIN_REQUEST_INTERVAL_def)
next
  case False
  then have "int (lastRequestTime g) + MIN_REQUEST_INTERVAL \<le> int (clock g)" by simp
  from spaced_dispatch [OF assms(1) this] False show ?thesis
    by (simp add: begin_request_def Let_def)
qed

lemma spaced_drain:
  assumes "spaced g" and "current g = None"
  shows "spaced (drain g)"
proof (cases "requestQueue g")
  case Nil
  with assms show ?thesis by (simp add: drain_def spaced_def)
next
  case (Cons r rest)
  have "spaced (g\<lparr>requestQueue := rest, current := None\<rparr>)"
    using assms by (simp add: spaced_def)
  then have "spaced (begin_request (fst r) (snd r) (g\<lparr>requestQueue := rest, current := None\<rparr>))"
    by (rule spaced_begin) simp
  with Cons show ?thesis by (simp add: drain_def)
qed

lemma spaced_advance: "spaced g \<Longrightarrow> spaced (advance_to d g)"
  by (simp add: spaced_def le_max_iff_disj)

lemma spaced_resume: "spaced g \<Longrightarrow> spaced (resume g)"
proof (cases "current g")
  case None
  assume "spaced g"
  with None show ?thesis by (simp add: resume_def)
next
  case (Some c)
  assume s: "spaced g"
  obtain i fn ph where cur: "current g = Some (i, fn, ph)"
    using Some by (cases c) auto
  show ?thesis
  proof (cases ph)
    case (Spacing due)
    have "int (lastRequestTime (advance_to due g)) + MIN_REQUEST_INTERVAL
            \<le> int (clock (advance_to due g))"
      using s cur Spacing by (auto simp: spaced_def max_def)
    from spaced_dispatch [OF spaced_advance [OF s] this] cur Spacing
    show ?thesis by (simp add: resume_def)
  next
    case (Running due)
    let ?g' = "advance_to due g"
    let ?g'' = "?g'\<lparr>trace := trace ?g' @ [Settled i (clock ?g') (result_at fn (clock ?g'))],
                    current := None\<rparr>"
    have "spaced ?g''"
      using spaced_advance [OF s, of due] by (simp add: spaced_def start_times_append)
    then have "spaced (drain ?g'')" by (rule spaced_drain) simp
    moreover have "drain ?g'' = drain (?g'\<lparr>trace := trace ?g' @ [Settled i (clock ?g') (result_at fn (clock ?g'))]\<rparr>)"
      by (simp add: drain_def split: list.splits)
    ultimately show ?thesis using cur Running by (simp add: resume_def Let_def)
  qed
qed

lemma spaced_submit:
  assumes "spaced g" and "consistent subs g"
  shows "spaced (rateLimitedRequest fn g)"
proof (cases "isProcessingQueue g")
  case True
  with assms show ?thesis
    by (simp add: rateLimitedRequest_def processQueue_def spaced_def)
next
  case False
  with assms(2) have idle: "current g = None"
    unfolding consistent_def by blast
  let ?g1 = "g\<lparr>requestQueue := requestQueue g @ [(nextId g, fn)], nextId := Suc (nextId g),
               isProcessingQueue := True\<rparr>"
  have "spaced ?g1" using assms(1) by (simp add: spaced_def)
  then have "spaced (drain ?g1)" by (rule spaced_drain) (simp add: idle)
  with False show ?thesis
    by (simp add: rateLimitedRequest_def processQueue_def)
qed

lemma spaced_run:
  "spaced g \<Longrightarrow> consistent subs g \<Longrightarrow> spaced (run cs g)"
proof (induction cs arbitrary: subs g)
  case Nil
  then show ?case by simp
next
  case (Cons c cs)
  have "spaced (step c g)"
    using Cons.prems by (cases c) (auto intro: spaced_submit spaced_elapse spaced_resume)
  from Cons.IH [OF this consistent_step [OF Cons.prems(2)]] show ?case by simp
qed

text \<open>
  Claim C2. Whatever the environment does (submissions, passing of time and completions of
  awaits, in any order), the operations started so far are the first of the submitted ones,
  in the order of their submission, and the trace is serial: each operation started settles
  before the next one starts. Once the awaits of the loop have completed twice for each
  submission, every submitted operation has been started, in order, and has settled, whatever
  the outcomes of the operations were (failures included).
\<close>

theorem governor_fifo:
  "prefix (dispatched (trace (run cs (init t0)))) (zip [0..<length (submitted cs)] (submitted cs))
   \<and> serial (trace (run cs (init t0)))
   \<and> dispatched (trace (run (cs @ replicate (2 * length (submitted cs)) Resume) (init t0)))
       = zip [0..<length (submitted cs)] (submitted cs)
   \<and> complete (trace (run (cs @ replicate (2 * length (submitted cs)) Resume) (init t0)))"
proof -
  let ?g = "run cs (init t0 :: 'a governor)"
  let ?n = "2 * length (submitted cs)"
  have c: "consistent (submitted cs) ?g"
    using consistent_run [OF consistent_init, of cs t0] by simp
  then have "prefix (dispatched (trace ?g)) (zip [0..<length (submitted cs)] (submitted cs))"
    unfolding consistent_def by (metis prefixI)
  moreover have "serial (trace ?g)"
    using c shape_serial unfolding consistent_def by blast
  moreover have "pending ?g \<le> ?n"
    using pending_run [of cs "init t0 :: 'a governor"] by (simp add: pending_def init_def)
  then have "pending (run (replicate ?n Resume) ?g) = 0"
    using pending_resumes [OF c, of ?n] by simp
  moreover have "consistent (submitted cs) (run (replicate ?n Resume) ?g)"
    using consistent_run [OF c, of "replicate ?n Resume"]
    by (simp add: submitted_resumes)
  ultimately show ?thesis
    using pending_zero by (simp add: run_append) blast
qed

text \<open>
  Claim C3. Whatever the environment does, the start times of any two consecutive
  dispatches lie at least \<open>MIN_REQUEST_INTERVAL\<close> (5000 ms) apart; operations may take no
  time at all.
\<close>

theorem governor_spacing:
  "MIN_REQUEST_INTERVAL = 5000
   \<and> successively (\<lambda>t u. int t + MIN_REQUEST_INTERVAL \<le> int u)
       (start_times (trace (run cs (init t0))))"
  using spaced_run [OF spaced_init consistent_init, of cs t0]
  by (simp add: spaced_def MIN_REQUEST_INTERVAL_def)

section \<open>Properties of the retry wrapper\<close>

lemma settled_outcome_fresh:
  "list_all (fresh n) tr \<Longrightarrow> n \<le> i \<Longrightarrow> settled_outcome i tr = None"
  by (induction i tr rule: settled_outcome.induct) auto

lemma settled_outcome_append:
  "settled_outcome i (xs @ ys) =
     (case settled_outcome i xs of None \<Rightarrow> settled_outcome i ys | Some r \<Rightarrow> Some r)"
  by (induction i xs rule: settled_outcome.induct) auto

lemma fresh_mono: "fresh n e \<Longrightarrow> n \<le> m \<Longrightarrow> fresh m e"
  by (cases e) auto

lemma list_all_fresh_mono: "list_all (fresh n) tr \<Longrightarrow> n \<le> m \<Longrightarrow> list_all (fresh m) tr"
  by (induction tr) (auto intro: fresh_mono)

lemma await_settled_done: "settled_outcome i (trace g) \<noteq> None \<Longrightarrow> await_settled i g = g"
  by (subst await_settled.simps) simp

lemma await_settled_step:
  "settled_outcome i (trace g) = None \<Longrightarrow> current g \<noteq> None
     \<Longrightarrow> await_settled i g = await_settled i (resume g)"
  by (subst await_settled.simps) auto

lemma resume_last:
  assumes "current g = Some (i, fn, Running d)" and "requestQueue g = []"
  shows "resume g =
     (advance_to d g)\<lparr>trace := trace g @ [Settled i (max (clock g) d) (result_at fn (max (clock g) d))],
                      isProcessingQueue := False, current := None\<rparr>"
  using assms by (simp add: resume_def drain_def Let_def)

lemma awaited_running:
  assumes "current g = Some (i, fn, Running d)" and "requestQueue g = []"
    and "settled_outcome i (trace g) = None"
  shows "await_settled i g =
     (advance_to d g)\<lparr>trace := trace g @ [Settled i (max (clock g) d) (result_at fn (max (clock g) d))],
                      isProcessingQueue := False, current := None\<rparr>"
proof -
  have "await_settled i g = await_settled i (resume g)"
    using assms by (intro await_settled_step) simp_all
  also have "\<dots> = resume g"
    using assms by (intro await_settled_done) (simp add: resume_last settled_outcome_append)
  finally show ?thesis using assms by (simp add: resume_last)
qed

lemma awaited_request_idle:
  assumes "idle g"
  shows "fst (awaited_request fn g) = Some (result_at fn (start_time g + duration fn))"
    and "idle (snd (awaited_request fn g))"
    and "trace (snd (awaited_request fn g)) =
           trace g @ [Started (nextId g) fn (start_time g),
                      Settled (nextId g) (start_time g + duration fn)
                        (result_at fn (start_time g + duration fn))]"
    and "nextId (snd (awaited_request fn g)) = Suc (nextId g)"
    and "clock (snd (awaited_request fn g)) = start_time g + duration fn"
    and "lastRequestTime (snd (awaited_request fn g)) = start_time g"
proof -
  let ?n = "nextId g"
  let ?g0 = "g\<lparr>nextId := Suc ?n, isProcessingQueue := True, requestQueue := [], current := None\<rparr>"
  let ?r = "Settled ?n (start_time g + duration fn) (result_at fn (start_time g + duration fn))"
  from assms have i: "current g = None" "requestQueue g = []" "\<not> isProcessingQueue g"
    "list_all (fresh ?n) (trace g)"
    by (simp_all add: idle_def)
  have none: "settled_outcome ?n (trace g) = None"
    using i(4) by (rule settled_outcome_fresh) simp
  have sub: "rateLimitedRequest fn g = begin_request ?n fn ?g0"
    using i by (simp add: rateLimitedRequest_def processQueue_def drain_def)
  have run: "await_settled ?n (dispatch ?n fn (advance_to (start_time g) ?g0)) =
      (advance_to (start_time g + duration fn) (dispatch ?n fn (advance_to (start_time g) ?g0)))
        \<lparr>trace := trace g @ [Started ?n fn (start_time g), ?r],
          isProcessingQueue := False, current := None\<rparr>"
  proof -
    have ck: "max (clock g) (start_time g) = start_time g"
      by (simp add: start_time_def)
    have d: "current (dispatch ?n fn (advance_to (start_time g) ?g0))
               = Some (?n, fn, Running (start_time g + duration fn))"
      by (simp add: dispatch_fields ck)
    show ?thesis
      by (subst awaited_running [OF d])
         (simp_all add: dispatch_fields settled_outcome_append none ck)
  qed
  have fin: "await_settled ?n (rateLimitedRequest fn g) =
      (advance_to (start_time g + duration fn) (dispatch ?n fn (advance_to (start_time g) ?g0)))
        \<lparr>trace := trace g @ [Started ?n fn (start_time g), ?r],
          isProcessingQueue := False, current := None\<rparr>"
  proof (cases "int (clock g) - int (lastRequestTime g) < MIN_REQUEST_INTERVAL")
    case True
    let ?g1 = "?g0\<lparr>current := Some (?n, fn, Spacing (start_time g))\<rparr>"
    have b: "rateLimitedRequest fn g = ?g1"
      using True by (simp add: sub begin_request_def Let_def start_time_def)
    have "await_settled ?n ?g1 = await_settled ?n (resume ?g1)"
      using none by (intro await_settled_step) simp_all
    also have "resume ?g1 = dispatch ?n fn (advance_to (start_time g) ?g1)"
      by (simp add: resume_def)
    also have "dispatch ?n fn (advance_to (start_time g) ?g1)
                 = dispatch ?n fn (advance_to (start_time g) ?g0)"
      by (simp add: dispatch_def advance_to_def elapse_def Let_def)
    finally show ?thesis using run b by simp
  next
    case False
    then have st: "start_time g = clock g" by (simp add: start_time_def)
    have "rateLimitedRequest fn g = dispatch ?n fn ?g0"
      using False by (simp add: sub begin_request_def Let_def)
    also have "\<dots> = dispatch ?n fn (advance_to (start_time g) ?g0)"
      by (simp add: st advance_to_def)
    finally show ?thesis using run by simp
  qed
  have out: "settled_outcome ?n (trace g @ [Started ?n fn (start_time g), ?r])
      = Some (result_at fn (start_time g + duration fn))"
    by (simp add: settled_outcome_append none)
  show "fst (awaited_request fn g) = Some (result_at fn (start_time g + duration fn))"
    by (simp add: awaited_request_def Let_def fin out)
  show "trace (snd (awaited_request fn g)) = trace g @ [Started ?n fn (start_time g), ?r]"
    by (simp add: awaited_request_def Let_def fin)
  show "nextId (snd (awaited_request fn g)) = Suc ?n"
    by (simp add: awaited_request_def Let_def fin)
  show "clock (snd (awaited_request fn g)) = start_time g + duration fn"
    by (simp add: awaited_request_def Let_def fin max_def start_time_def)
  show "lastRequestTime (snd (awaited_request fn g)) = start_time g"
    by (simp add: awaited_request_def Let_def fin max_def start_time_def)
  show "idle (snd (awaited_request fn g))"
    using list_all_fresh_mono [OF i(4), of "Suc ?n"]
    by (simp add: awaited_request_def Let_def fin idle_def i)
qed

lemma actions_append: "actions (xs @ ys) = actions xs @ actions ys"
  by (induction xs rule: actions.induct) auto

lemma delay_fields:
  "trace (delay ms g) = trace g @ [Backoff ms (clock g) (clock g + timeout_of ms)]"
  "clock (delay ms g) = clock g + timeout_of ms"
  "lastRequestTime (delay ms g) = lastRequestTime g"
  "nextId (delay ms g) = nextId g"
  by (simp_all add: delay_def Let_def)

lemma delay_idle: "idle g \<Longrightarrow> idle (delay ms g)"
  by (simp add: idle_def delay_def Let_def)

lemma timeout_of_floor: "1 \<le> ms \<Longrightarrow> ms \<le> TIMEOUT_MAX \<Longrightarrow> timeout_of ms = nat \<lfloor>ms\<rfloor>"
  by (simp add: timeout_of_def)

lemma start_time_spaced: "start_time g = spaced_start (lastRequestTime g) (clock g)"
  by (simp add: start_time_def spaced_start_def)

lemma quota_error_defined: "quota_error e \<Longrightarrow> e \<noteq> Undefined"
  by (auto simp: quota_error_def)

lemma retryable_error_defined: "retryable_error e \<Longrightarrow> e \<noteq> Undefined"
  by (auto simp: retryable_error_def)

lemma on_error_quota:
  "quota_error e \<Longrightarrow> on_error M B a e =
     (if a = M then Throw quota_exhausted else RetryAfter (of_nat B * 2 ^ a))"
  using quota_error_defined [of e] by (auto simp: on_error_def quota_error_def Let_def)

lemma on_error_transient:
  "retryable_error e \<Longrightarrow> \<not> quota_error e \<Longrightarrow> on_error M B a e =
     (if a = M then Throw e else RetryAfter (of_nat B * (3 / 2) ^ (a - 1)))"
  using retryable_error_defined [of e]
  by (auto simp: on_error_def quota_error_def retryable_error_def Let_def)

lemma on_error_fatal:
  "e \<noteq> Undefined \<Longrightarrow> \<not> retryable_error e \<Longrightarrow> \<not> quota_error e \<Longrightarrow> on_error M B a e = Throw e"
  by (auto simp: on_error_def quota_error_def retryable_error_def Let_def)

lemma retryLoop_idle:
  assumes "idle g" and "a \<le> M"
  shows "retryLoop fn M B a le g =
     (case result_at (fn a) (start_time g + duration (fn a)) of
        Inr v \<Rightarrow> (Some (Inr v), snd (awaited_request (fn a) g))
      | Inl e \<Rightarrow>
          (case on_error M B a e of
             Throw e' \<Rightarrow> (Some (Inl e'), snd (awaited_request (fn a) g))
           | RetryAfter ms \<Rightarrow>
               retryLoop fn M B (Suc a) e (delay ms (snd (awaited_request (fn a) g)))))"
proof -
  obtain r g1 where p: "awaited_request (fn a) g = (r, g1)"
    by (cases "awaited_request (fn a) g")
  with awaited_request_idle(1) [OF assms(1), of "fn a"]
  have r: "r = Some (result_at (fn a) (start_time g + duration (fn a)))" by simp
  show ?thesis
    by (subst retryLoop.simps) (simp add: assms(2) p r split: sum.splits decision.splits)
qed

lemma retryLoop_done: "M < a \<Longrightarrow> retryLoop fn M B a le g = (Some (Inl le), g)"
  by (subst retryLoop.simps) simp

lemma actions_request:
  assumes "idle g"
  shows "actions (trace (snd (awaited_request fn g))) = actions (trace g) @ [Call]"
  by (simp add: awaited_request_idle(3) [OF assms] actions_append)

lemma attempt_events_Cons:
  "ks \<noteq> [] \<Longrightarrow> attempt_events i s fn w (k # ks) =
     [Started i (fn k) s,
      Settled i (s + duration (fn k)) (result_at (fn k) (s + duration (fn k))),
      Backoff (w k) (s + duration (fn k)) (s + duration (fn k) + nat \<lfloor>w k\<rfloor>)]
     @ attempt_events (Suc i) (spaced_start s (s + duration (fn k) + nat \<lfloor>w k\<rfloor>)) fn w ks"
  by simp

lemma actions_attempt_events:
  "actions (attempt_events i s fn w ks) =
     concat (map (\<lambda>k. [Call, Wait (w k)]) (butlast ks)) @ (if ks = [] then [] else [Call])"
  by (induction ks arbitrary: i s) auto

lemma retryLoop_final:
  assumes "idle g" and "n \<le> M" and "final_outcome M B n (result_at (fn n) (start_time g + duration (fn n))) r"
  shows "retryLoop fn M B n le g = (Some r, snd (awaited_request (fn n) g))"
  using assms(3)
  by (simp add: retryLoop_idle [OF assms(1,2)] final_outcome_def split: sum.splits decision.splits)

lemma retryLoop_attempts:
  assumes "idle g" and "a \<le> n" and "n \<le> M"
    and "\<And>k t. a \<le> k \<Longrightarrow> k < n \<Longrightarrow>
           \<exists>e. result_at (fn k) t = Inl e \<and> on_error M B k e = RetryAfter (w k)"
    and "\<And>k. a \<le> k \<Longrightarrow> k < n \<Longrightarrow> 1 \<le> w k \<and> w k \<le> TIMEOUT_MAX"
    and "\<And>t. \<exists>r. final_outcome M B n (result_at (fn n) t) r"
  shows "\<exists>g' t r. retryLoop fn M B a le g = (Some r, g') \<and> idle g'
           \<and> final_outcome M B n (result_at (fn n) t) r
           \<and> trace g' = trace g @ attempt_events (nextId g) (start_time g) fn w [a..<Suc n]"
  using assms(1,2,4,5)
proof (induction "n - a" arbitrary: a le g)
  case 0
  then have an: "a = n" by simp
  let ?t = "start_time g + duration (fn n)"
  from assms(6) obtain r where r: "final_outcome M B n (result_at (fn n) ?t) r" by blast
  have "retryLoop fn M B n le g = (Some r, snd (awaited_request (fn n) g))"
    using "0.prems"(1) assms(3) r by (rule retryLoop_final)
  moreover have "idle (snd (awaited_request (fn n) g))"
    by (intro awaited_request_idle(2) "0.prems"(1))
  moreover have "trace (snd (awaited_request (fn n) g))
      = trace g @ attempt_events (nextId g) (start_time g) fn w [n..<Suc n]"
    by (simp add: awaited_request_idle(3) [OF "0.prems"(1)])
  ultimately show ?case using r an by blast
next
  case (Suc d)
  then have an: "a < n" and d: "d = n - Suc a" by simp_all
  with assms(3) have aM: "a \<le> M" by simp
  let ?s = "start_time g"
  let ?t = "?s + duration (fn a)"
  let ?g1 = "snd (awaited_request (fn a) g)"
  let ?g2 = "delay (w a) ?g1"
  obtain e where e: "result_at (fn a) ?t = Inl e" "on_error M B a e = RetryAfter (w a)"
    using Suc.prems(3) [of a ?t] an by auto
  have lim: "timeout_of (w a) = nat \<lfloor>w a\<rfloor>"
    using Suc.prems(4) [of a] an by (simp add: timeout_of_floor)
  have i2: "idle ?g2"
    by (intro delay_idle awaited_request_idle(2) Suc.prems(1))
  have step: "retryLoop fn M B a le g = retryLoop fn M B (Suc a) e ?g2"
    by (simp add: retryLoop_idle [OF Suc.prems(1) aM] e)
  have tr2: "trace ?g2 = trace g @ [Started (nextId g) (fn a) ?s,
      Settled (nextId g) ?t (result_at (fn a) ?t), Backoff (w a) ?t (?t + nat \<lfloor>w a\<rfloor>)]"
    by (simp add: delay_fields awaited_request_idle(3,5) [OF Suc.prems(1)] lim)
  have id2: "nextId ?g2 = Suc (nextId g)"
    by (simp add: delay_fields awaited_request_idle(4) [OF Suc.prems(1)])
  have st2: "start_time ?g2 = spaced_start ?s (?t + nat \<lfloor>w a\<rfloor>)"
    by (simp add: start_time_spaced delay_fields awaited_request_idle(5,6) [OF Suc.prems(1)] lim)
  have "\<exists>g' t r. retryLoop fn M B (Suc a) e ?g2 = (Some r, g') \<and> idle g'
           \<and> final_outcome M B n (result_at (fn n) t) r
           \<and> trace g' = trace ?g2 @ attempt_events (nextId ?g2) (start_time ?g2) fn w [Suc a..<Suc n]"
  proof (rule Suc.hyps(1) [OF d i2])
    show "Suc a \<le> n" using an by simp
    show "\<And>k t. Suc a \<le> k \<Longrightarrow> k < n \<Longrightarrow>
           \<exists>e. result_at (fn k) t = Inl e \<and> on_error M B k e = RetryAfter (w k)"
      using Suc.prems(3) by simp
    show "\<And>k. Suc a \<le> k \<Longrightarrow> k < n \<Longrightarrow> 1 \<le> w k \<and> w k \<le> TIMEOUT_MAX"
      using Suc.prems(4) by simp
  qed
  then obtain g' t r where r: "retryLoop fn M B (Suc a) e ?g2 = (Some r, g')" "idle g'"
    "final_outcome M B n (result_at (fn n) t) r"
    "trace g' = trace ?g2 @ attempt_events (nextId ?g2) (start_time ?g2) fn w [Suc a..<Suc n]"
    by blast
  have ne: "[Suc a..<Suc n] \<noteq> []" using an by simp
  have eq: "[a..<Suc n] = a # [Suc a..<Suc n]"
    by (rule upt_conv_Cons) (use an in simp)
  have "attempt_events (nextId g) ?s fn w [a..<Suc n] =
      [Started (nextId g) (fn a) ?s, Settled (nextId g) ?t (result_at (fn a) ?t),
       Backoff (w a) ?t (?t + nat \<lfloor>w a\<rfloor>)]
      @ attempt_events (Suc (nextId g)) (spaced_start ?s (?t + nat \<lfloor>w a\<rfloor>)) fn w [Suc a..<Suc n]"
    unfolding eq by (rule attempt_events_Cons [OF ne])
  with r(4) tr2 id2 st2
  have "trace g' = trace g @ attempt_events (nextId g) ?s fn w [a..<Suc n]"
    by (simp only: append_assoc)
  moreover from step r(1) have "retryLoop fn M B a le g = (Some r, g')" by simp
  ultimately show ?case using r(2,3) by blast
qed

lemma on_error_cases:
  "on_error M B a e = Throw e' \<Longrightarrow>
     (e = Undefined \<and> e' = typeError_message) \<or> (quota_error e \<and> e' = quota_exhausted)
     \<or> (e \<noteq> Undefined \<and> \<not> quota_error e \<and> e' = e)"
  by (auto simp: on_error_def quota_error_def Let_def split: if_splits)

lemma on_error_retry: "on_error M B a e = RetryAfter ms \<Longrightarrow> a \<noteq> M"
  by (auto simp: on_error_def Let_def split: if_splits)

lemma retry_outcome_Suc:
  "retry_outcome fn M (Suc a) e r \<Longrightarrow> Suc a \<le> M \<Longrightarrow> retry_outcome fn M a le r"
  by (cases r) (auto simp: retry_outcome_def intro: Suc_leD)

lemma retryLoop_outcome:
  assumes "idle g"
  shows "\<exists>r g'. retryLoop fn M B a le g = (Some r, g') \<and> idle g' \<and> retry_outcome fn M a le r"
  using assms
proof (induction "Suc M - a" arbitrary: a le g)
  case 0
  then have "M < a" by simp
  then show ?case using "0.prems" by (auto simp: retryLoop_done retry_outcome_def)
next
  case (Suc n)
  then have a: "a \<le> M" by simp
  let ?t = "start_time g + duration (fn a)"
  let ?g1 = "snd (awaited_request (fn a) g)"
  have i1: "idle ?g1" by (intro awaited_request_idle(2) Suc.prems)
  note unfold = retryLoop_idle [OF Suc.prems a, of fn B le]
  show ?case
  proof (cases "result_at (fn a) ?t")
    case (Inr v)
    then show ?thesis using unfold i1 a by (auto simp: retry_outcome_def)
  next
    case (Inl e)
    show ?thesis
    proof (cases "on_error M B a e")
      case (Throw e')
      from on_error_cases [OF this] Inl unfold Throw i1 show ?thesis
        by (auto simp: retry_outcome_def)
    next
      case (RetryAfter ms)
      then have "a \<noteq> M" by (rule on_error_retry)
      with a Suc.hyps have n: "n = Suc M - Suc a" and lt: "Suc a \<le> M" by simp_all
      have "\<exists>r g'. retryLoop fn M B (Suc a) e (delay ms ?g1) = (Some r, g') \<and> idle g'
              \<and> retry_outcome fn M (Suc a) e r"
        using n delay_idle [OF i1] by (rule Suc.hyps(1))
      then obtain r g' where r: "retryLoop fn M B (Suc a) e (delay ms ?g1) = (Some r, g')" "idle g'"
        "retry_outcome fn M (Suc a) e r"
        by blast
      have "retryLoop fn M B a le g = (Some r, g')"
        using unfold Inl RetryAfter r(1) by simp
      then show ?thesis using r(2) retry_outcome_Suc [OF r(3) lt] by blast
    qed
  qed
qed

lemma sorted_quota_delays:
  "0 < B \<Longrightarrow> sorted_wrt (<) (map (\<lambda>attempt. of_nat B * 2 ^ attempt :: rat) [a..<M])"
  by (simp add: sorted_wrt_map sorted_wrt_mono_rel [OF _ sorted_wrt_upt])

lemma idle_init: "idle (init t0)"
  by (simp add: idle_def init_def)

lemma trace_init: "trace (init t0) = []"
  by (simp add: init_def)

lemma upt_1_3: "[Suc 0..<3] = [Suc 0, 2]"
  by (simp add: upt_conv_Cons)

lemma upt_1_2: "[Suc 0..<2] = [Suc 0]"
  by (simp add: upt_conv_Cons)

lemma failing_result: "result_at (failing e k) t = Inl e"
  by (simp add: failing_def)


lemma upt_1_4: "[Suc 0..<4] = [Suc 0, 2, 3]"
  by (simp add: upt_conv_Cons)

lemma quota_delay_bounds:
  assumes "0 < B" and "of_nat B * 2 ^ M \<le> TIMEOUT_MAX" and "k \<le> M"
  shows "1 \<le> (of_nat B * 2 ^ k :: rat) \<and> of_nat B * 2 ^ k \<le> TIMEOUT_MAX"
proof
  have b: "(1::rat) \<le> of_nat B" using assms(1) by simp
  have "(1::rat) * 1 \<le> of_nat B * 2 ^ k"
    using b by (intro mult_mono) simp_all
  then show "1 \<le> (of_nat B * 2 ^ k :: rat)" by simp
  have "(2::rat) ^ k \<le> 2 ^ M" using assms(3) by (intro power_increasing) simp_all
  then have "(of_nat B * 2 ^ k :: rat) \<le> of_nat B * 2 ^ M"
    by (intro mult_left_mono) simp_all
  with assms(2) show "of_nat B * 2 ^ k \<le> TIMEOUT_MAX" by simp
qed

lemma transient_delay_bounds:
  assumes "0 < B" and "of_nat B * 3 ^ M \<le> TIMEOUT_MAX" and "k \<le> M"
  shows "1 \<le> (of_nat B * (3 / 2) ^ k :: rat) \<and> of_nat B * (3 / 2) ^ k \<le> TIMEOUT_MAX"
proof
  have b: "(1::rat) \<le> of_nat B" using assms(1) by simp
  have p: "(1::rat) \<le> (3 / 2) ^ k" by (intro one_le_power) simp
  have "(1::rat) * 1 \<le> of_nat B * (3 / 2) ^ k"
    using b p by (intro mult_mono) simp_all
  then show "1 \<le> (of_nat B * (3 / 2) ^ k :: rat)" by simp
  have "((3 / 2) ^ k :: rat) \<le> 3 ^ k" by (intro power_mono) simp_all
  also have "(3::rat) ^ k \<le> 3 ^ M" using assms(3) by (intro power_increasing) simp_all
  finally have "(of_nat B * (3 / 2) ^ k :: rat) \<le> of_nat B * 3 ^ M"
    by (intro mult_left_mono) simp_all
  with assms(2) show "of_nat B * (3 / 2) ^ k \<le> TIMEOUT_MAX" by simp
qed

lemma retryWithBackoff_attempts:
  assumes "idle g" and "1 \<le> n" and "n \<le> M"
    and "\<And>k t. 1 \<le> k \<Longrightarrow> k < n \<Longrightarrow>
           \<exists>e. result_at (fn k) t = Inl e \<and> on_error M B k e = RetryAfter (w k)"
    and "\<And>k. 1 \<le> k \<Longrightarrow> k < n \<Longrightarrow> 1 \<le> w k \<and> w k \<le> TIMEOUT_MAX"
    and "\<And>t. \<exists>r. final_outcome M B n (result_at (fn n) t) r"
  shows "\<exists>g' t r. retryWithBackoff fn M B g = (Some r, g')
           \<and> final_outcome M B n (result_at (fn n) t) r
           \<and> trace g' = trace g @ attempt_events (nextId g) (start_time g) fn w [1..<Suc n]
           \<and> actions (trace g') = actions (trace g)
                @ concat (map (\<lambda>k. [Call, Wait (w k)]) [1..<n]) @ [Call]"
proof -
  have "\<exists>g' t r. retryLoop fn M B 1 Undefined g = (Some r, g') \<and> idle g'
           \<and> final_outcome M B n (result_at (fn n) t) r
           \<and> trace g' = trace g @ attempt_events (nextId g) (start_time g) fn w [1..<Suc n]"
    using assms by (rule retryLoop_attempts)
  then obtain g' t r where r: "retryLoop fn M B 1 Undefined g = (Some r, g')"
    "final_outcome M B n (result_at (fn n) t) r"
    "trace g' = trace g @ attempt_events (nextId g) (start_time g) fn w [1..<Suc n]"
    by blast
  have "butlast [1..<Suc n] = [1..<n]" using assms(2) by simp
  moreover have "[1..<Suc n] \<noteq> []" using assms(2) by simp
  ultimately have "actions (trace g') = actions (trace g)
      @ concat (map (\<lambda>k. [Call, Wait (w k)]) [1..<n]) @ [Call]"
    by (simp only: r(3) actions_append actions_attempt_events if_False)
  with r show ?thesis unfolding retryWithBackoff_def by blast
qed

text \<open>
  Claim C1 (as amended). When every attempt fails with an error that the code treats as a
  quota error (its message contains "quota", or "429" together with "RESOURCE_EXHAUSTED" or
  "free_tier_requests"), \<open>retryWithBackoff\<close>, called while the governor is idle with a
  positive \<open>baseDelay\<close> and with \<open>baseDelay * 2^maxRetries\<close> at most 2147483647 (the
  defaults 3 and 6000 are such), calls the operation exactly \<open>maxRetries\<close> times and then
  fails with the quota-exhausted error. After each failed attempt but the last it waits: the
  wait asked is \<open>baseDelay * 2^attempt\<close>, these waits are strictly increasing, and each
  lasts that long on the clock, from the failure of the attempt on; the next attempt is
  started when the wait ends or, if that is later, 5000 ms after the start of the attempt
  before. The events of the call are exactly these.
\<close>

theorem retry_quota_exhausted:
  assumes "idle g" and "1 \<le> maxRetries" and "0 < baseDelay"
    and "of_nat baseDelay * 2 ^ maxRetries \<le> TIMEOUT_MAX"
    and "\<And>k t. result_at (fn k) t = Inl (err k t)" and "\<And>k t. quota_error (err k t)"
  shows "\<exists>g'. retryWithBackoff fn maxRetries baseDelay g = (Some (Inl quota_exhausted), g')
     \<and> trace g' = trace g
          @ attempt_events (nextId g) (start_time g) fn
              (\<lambda>attempt. of_nat baseDelay * 2 ^ attempt) [1..<Suc maxRetries]
     \<and> actions (trace g') = actions (trace g)
          @ concat (map (\<lambda>attempt. [Call, Wait (of_nat baseDelay * 2 ^ attempt)]) [1..<maxRetries])
          @ [Call]
     \<and> sorted_wrt (<) (map (\<lambda>attempt. of_nat baseDelay * 2 ^ attempt :: rat) [1..<maxRetries])"
proof -
  let ?w = "\<lambda>k. of_nat baseDelay * 2 ^ k :: rat"
  have fin: "final_outcome maxRetries baseDelay maxRetries (result_at (fn maxRetries) t) r
      \<longleftrightarrow> r = Inl quota_exhausted" for t r
    by (simp add: final_outcome_def assms(5) on_error_quota [OF assms(6)])
  have "\<exists>g' t r. retryWithBackoff fn maxRetries baseDelay g = (Some r, g')
           \<and> final_outcome maxRetries baseDelay maxRetries (result_at (fn maxRetries) t) r
           \<and> trace g' = trace g @ attempt_events (nextId g) (start_time g) fn ?w [1..<Suc maxRetries]
           \<and> actions (trace g') = actions (trace g)
                @ concat (map (\<lambda>k. [Call, Wait (?w k)]) [1..<maxRetries]) @ [Call]"
  proof (rule retryWithBackoff_attempts [OF assms(1,2)])
    show "maxRetries \<le> maxRetries" by simp
    show "\<exists>e. result_at (fn k) t = Inl e \<and> on_error maxRetries baseDelay k e = RetryAfter (?w k)"
      if "1 \<le> k" "k < maxRetries" for k t
      using that by (simp add: assms(5) on_error_quota [OF assms(6)])
    show "1 \<le> ?w k \<and> ?w k \<le> TIMEOUT_MAX" if "1 \<le> k" "k < maxRetries" for k
      using that by (intro quota_delay_bounds [OF assms(3,4)]) simp
    show "\<exists>r. final_outcome maxRetries baseDelay maxRetries (result_at (fn maxRetries) t) r" for t
      by (simp add: fin)
  qed
  then show ?thesis
    using sorted_quota_delays [OF assms(3), of 1 maxRetries] by (auto simp: fin)
qed

theorem retry_quota_exhausted_witness:
  "idle (init 0 :: unit governor)
   \<and> quota_error (Error (Some ''429 RESOURCE_EXHAUSTED''))
   \<and> of_nat 6000 * 2 ^ 3 \<le> TIMEOUT_MAX
   \<and> (\<exists>g'. retryWithBackoff (failing (Error (Some ''429 RESOURCE_EXHAUSTED''))) 3 6000
              (init 0 :: unit governor) = (Some (Inl quota_exhausted), g')
          \<and> trace g' =
              [Started 0 (failing (Error (Some ''429 RESOURCE_EXHAUSTED'')) 1) 5000,
               Settled 0 5000 (Inl (Error (Some ''429 RESOURCE_EXHAUSTED''))),
               Backoff 12000 5000 17000,
               Started 1 (failing (Error (Some ''429 RESOURCE_EXHAUSTED'')) 2) 17000,
               Settled 1 17000 (Inl (Error (Some ''429 RESOURCE_EXHAUSTED''))),
               Backoff 24000 17000 41000,
               Started 2 (failing (Error (Some ''429 RESOURCE_EXHAUSTED'')) 3) 41000,
               Settled 2 41000 (Inl (Error (Some ''429 RESOURCE_EXHAUSTED'')))]
          \<and> start_times (trace g') = [5000, 17000, 41000]
          \<and> actions (trace g') = [Call, Wait 12000, Call, Wait 24000, Call])"
proof -
  let ?e = "Error (Some ''429 RESOURCE_EXHAUSTED'')"
  have q: "quota_error ?e"
    by (simp add: quota_error_def)
  have l: "of_nat 6000 * 2 ^ 3 \<le> TIMEOUT_MAX"
    by (simp add: TIMEOUT_MAX_def)
  have s: "start_time (init 0 :: unit governor) = 5000" "nextId (init 0 :: unit governor) = 0"
    by (simp_all add: start_time_def init_def MIN_REQUEST_INTERVAL_def)
  have d: "duration (failing ?e k :: unit operation) = 0" for k
    by (simp add: failing_def)
  have "\<exists>g'. retryWithBackoff (failing ?e) 3 6000 (init 0 :: unit governor)
          = (Some (Inl quota_exhausted), g')
      \<and> trace g' = trace (init 0 :: unit governor)
          @ attempt_events (nextId (init 0 :: unit governor)) (start_time (init 0 :: unit governor))
              (failing ?e) (\<lambda>attempt. of_nat 6000 * 2 ^ attempt) [1..<Suc 3]
      \<and> actions (trace g') = actions (trace (init 0 :: unit governor))
          @ concat (map (\<lambda>attempt. [Call, Wait (of_nat 6000 * 2 ^ attempt)]) [1..<3])
          @ [Call]
      \<and> sorted_wrt (<) (map (\<lambda>attempt. of_nat 6000 * 2 ^ attempt :: rat) [1..<3])"
    using retry_quota_exhausted [of "init 0 :: unit governor" 3 6000 "failing ?e" "\<lambda>k t. ?e",
        OF idle_init _ _ l failing_result q]
    by simp
  then obtain g' where g': "retryWithBackoff (failing ?e) 3 6000 (init 0 :: unit governor)
          = (Some (Inl quota_exhausted), g')"
    "trace g' = trace (init 0 :: unit governor)
          @ attempt_events (nextId (init 0 :: unit governor)) (start_time (init 0 :: unit governor))
              (failing ?e) (\<lambda>attempt. of_nat 6000 * 2 ^ attempt) [1..<Suc 3]"
    "actions (trace g') = actions (trace (init 0 :: unit governor))
          @ concat (map (\<lambda>attempt. [Call, Wait (of_nat 6000 * 2 ^ attempt)]) [1..<3])
          @ [Call]"
    by blast
  have t: "trace g' =
              [Started 0 (failing ?e 1) 5000, Settled 0 5000 (Inl ?e), Backoff 12000 5000 17000,
               Started 1 (failing ?e 2) 17000, Settled 1 17000 (Inl ?e), Backoff 24000 17000 41000,
               Started 2 (failing ?e 3) 41000, Settled 2 41000 (Inl ?e)]"
    by (simp add: g'(2) s d trace_init upt_1_4 failing_result spaced_start_def
          MIN_REQUEST_INTERVAL_def)
  have a: "actions (trace g') = [Call, Wait 12000, Call, Wait 24000, Call]"
    by (simp add: g'(3) trace_init upt_1_3)
  have "start_times (trace g') = [5000, 17000, 41000]"
    by (simp add: t)
  with g'(1) t a q l idle_init show ?thesis by blast
qed

text \<open>
  As stated for every error carrying the marker "429", the claim fails: an error whose
  message has "429" and none of the other markers is thrown as it is after one call.
\<close>

theorem retry_plain_429_counterexample:
  "fst (retryWithBackoff (failing (Error (Some ''429 Too Many Requests''))) 3 6000
          (init 0 :: unit governor))
     = Some (Inl (Error (Some ''429 Too Many Requests'')))
   \<and> fst (retryWithBackoff (failing (Error (Some ''429 Too Many Requests''))) 3 6000
          (init 0 :: unit governor))
     \<noteq> Some (Inl quota_exhausted)
   \<and> actions (trace (snd (retryWithBackoff (failing (Error (Some ''429 Too Many Requests''))) 3 6000
          (init 0 :: unit governor)))) = [Call]"
proof -
  have e: "on_error 3 6000 (Suc 0) (Error (Some ''429 Too Many Requests''))
             = Throw (Error (Some ''429 Too Many Requests''))"
    by (simp add: on_error_def)
  have "retryWithBackoff (failing (Error (Some ''429 Too Many Requests''))) 3 6000 (init 0 :: unit governor)
      = (Some (Inl (Error (Some ''429 Too Many Requests''))),
         snd (awaited_request (failing (Error (Some ''429 Too Many Requests'')) 1) (init 0)))"
    by (simp add: retryWithBackoff_def retryLoop_idle [OF idle_init] failing_result e)
  then show ?thesis
    by (simp add: actions_request [OF idle_init] quota_exhausted_def trace_init)
qed

text \<open>
  Claim C4. \<open>retryWithBackoff\<close> is called while the governor is idle, with a positive
  \<open>baseDelay\<close> and with \<open>baseDelay * 3^maxRetries\<close> at most 2147483647 (the defaults 3
  and 6000 are such). When the attempts before the \<open>n\<close>-th fail with transient errors
  (retryable, and not quota errors) and the \<open>n\<close>-th succeeds, it returns that result
  after \<open>n\<close> calls; for \<open>n = 2\<close> this is one failure, one wait and one retry. When
  every attempt fails with a transient error, the error of the last attempt is propagated
  after \<open>maxRetries\<close> calls. In both cases it waits after each failed attempt but the
  last: the wait asked is \<open>baseDelay * 1.5^(attempt-1)\<close>, and it lasts the whole
  milliseconds of that on the clock, from the failure of the attempt on; the next attempt is
  started when the wait ends or, if that is later, 5000 ms after the start of the attempt
  before. The events of the call are exactly these.
\<close>

theorem retry_transient:
  assumes "idle g" and "0 < baseDelay" and "of_nat baseDelay * 3 ^ maxRetries \<le> TIMEOUT_MAX"
  shows "(1 \<le> n \<and> n \<le> maxRetries
          \<and> (\<forall>k t. 1 \<le> k \<and> k < n \<longrightarrow>
                (\<exists>e. result_at (fn k) t = Inl e \<and> retryable_error e \<and> \<not> quota_error e))
          \<and> (\<forall>t. result_at (fn n) t = Inr v)
          \<longrightarrow> (\<exists>g'. retryWithBackoff fn maxRetries baseDelay g = (Some (Inr v), g')
                \<and> trace g' = trace g
                     @ attempt_events (nextId g) (start_time g) fn
                         (\<lambda>attempt. of_nat baseDelay * (3 / 2) ^ (attempt - 1)) [1..<Suc n]
                \<and> actions (trace g') = actions (trace g)
                     @ concat (map (\<lambda>attempt. [Call, Wait (of_nat baseDelay * (3 / 2) ^ (attempt - 1))])
                          [1..<n])
                     @ [Call]))
       \<and> (1 \<le> maxRetries
          \<and> (\<forall>k t. \<exists>e. result_at (fn k) t = Inl e \<and> retryable_error e \<and> \<not> quota_error e)
          \<longrightarrow> (\<exists>g' e t. retryWithBackoff fn maxRetries baseDelay g = (Some (Inl e), g')
                \<and> result_at (fn maxRetries) t = Inl e
                \<and> trace g' = trace g
                     @ attempt_events (nextId g) (start_time g) fn
                         (\<lambda>attempt. of_nat baseDelay * (3 / 2) ^ (attempt - 1)) [1..<Suc maxRetries]
                \<and> actions (trace g') = actions (trace g)
                     @ concat (map (\<lambda>attempt. [Call, Wait (of_nat baseDelay * (3 / 2) ^ (attempt - 1))])
                          [1..<maxRetries])
                     @ [Call]))"
proof (intro conjI impI)
  let ?w = "\<lambda>k. of_nat baseDelay * (3 / 2) ^ (k - 1) :: rat"
  have bounds: "1 \<le> ?w k \<and> ?w k \<le> TIMEOUT_MAX" if "k \<le> maxRetries" for k
    using that by (intro transient_delay_bounds [OF assms(2,3)]) simp
  {
    assume h: "1 \<le> n \<and> n \<le> maxRetries
          \<and> (\<forall>k t. 1 \<le> k \<and> k < n \<longrightarrow>
                (\<exists>e. result_at (fn k) t = Inl e \<and> retryable_error e \<and> \<not> quota_error e))
          \<and> (\<forall>t. result_at (fn n) t = Inr v)"
    have fin: "final_outcome maxRetries baseDelay n (result_at (fn n) t) r \<longleftrightarrow> r = Inr v" for t r
      using h by (simp add: final_outcome_def)
    have "\<exists>g' t r. retryWithBackoff fn maxRetries baseDelay g = (Some r, g')
           \<and> final_outcome maxRetries baseDelay n (result_at (fn n) t) r
           \<and> trace g' = trace g @ attempt_events (nextId g) (start_time g) fn ?w [1..<Suc n]
           \<and> actions (trace g') = actions (trace g)
                @ concat (map (\<lambda>k. [Call, Wait (?w k)]) [1..<n]) @ [Call]"
    proof (rule retryWithBackoff_attempts [OF assms(1)])
      show "1 \<le> n" "n \<le> maxRetries" using h by simp_all
      show "\<exists>e. result_at (fn k) t = Inl e \<and> on_error maxRetries baseDelay k e = RetryAfter (?w k)"
        if k: "1 \<le> k" "k < n" for k t
      proof -
        from h k obtain e where "result_at (fn k) t = Inl e" "retryable_error e" "\<not> quota_error e"
          by blast
        moreover have "k \<noteq> maxRetries" using k h by simp
        ultimately show ?thesis by (simp add: on_error_transient)
      qed
      show "1 \<le> ?w k \<and> ?w k \<le> TIMEOUT_MAX" if "1 \<le> k" "k < n" for k
        using that h by (intro bounds) simp
      show "\<exists>r. final_outcome maxRetries baseDelay n (result_at (fn n) t) r" for t
        by (simp add: fin)
    qed
    then show "\<exists>g'. retryWithBackoff fn maxRetries baseDelay g = (Some (Inr v), g')
                \<and> trace g' = trace g @ attempt_events (nextId g) (start_time g) fn ?w [1..<Suc n]
                \<and> actions (trace g') = actions (trace g)
                     @ concat (map (\<lambda>attempt. [Call, Wait (?w attempt)]) [1..<n]) @ [Call]"
      by (auto simp: fin)
  }
  {
    assume h: "1 \<le> maxRetries
          \<and> (\<forall>k t. \<exists>e. result_at (fn k) t = Inl e \<and> retryable_error e \<and> \<not> quota_error e)"
    have fin: "final_outcome maxRetries baseDelay maxRetries (result_at (fn maxRetries) t) r
        \<longleftrightarrow> r = result_at (fn maxRetries) t" for t r
    proof -
      from h obtain e where "result_at (fn maxRetries) t = Inl e" "retryable_error e" "\<not> quota_error e"
        by blast
      then show ?thesis by (auto simp: final_outcome_def on_error_transient)
    qed
    have "\<exists>g' t r. retryWithBackoff fn maxRetries baseDelay g = (Some r, g')
           \<and> final_outcome maxRetries baseDelay maxRetries (result_at (fn maxRetries) t) r
           \<and> trace g' = trace g @ attempt_events (nextId g) (start_time g) fn ?w [1..<Suc maxRetries]
           \<and> actions (trace g') = actions (trace g)
                @ concat (map (\<lambda>k. [Call, Wait (?w k)]) [1..<maxRetries]) @ [Call]"
    proof (rule retryWithBackoff_attempts [OF assms(1)])
      show "1 \<le> maxRetries" "maxRetries \<le> maxRetries" using h by simp_all
      show "\<exists>e. result_at (fn k) t = Inl e \<and> on_error maxRetries baseDelay k e = RetryAfter (?w k)"
        if k: "1 \<le> k" "k < maxRetries" for k t
      proof -
        from h obtain e where "result_at (fn k) t = Inl e" "retryable_error e" "\<not> quota_error e"
          by blast
        then show ?thesis using k by (simp add: on_error_transient)
      qed
      show "1 \<le> ?w k \<and> ?w k \<le> TIMEOUT_MAX" if "1 \<le> k" "k < maxRetries" for k
        using that by (intro bounds) simp
      show "\<exists>r. final_outcome maxRetries baseDelay maxRetries (result_at (fn maxRetries) t) r" for t
        by (simp add: fin)
    qed
    then obtain g' t r where r: "retryWithBackoff fn maxRetries baseDelay g = (Some r, g')"
      "r = result_at (fn maxRetries) t"
      "trace g' = trace g @ attempt_events (nextId g) (start_time g) fn ?w [1..<Suc maxRetries]"
      "actions (trace g') = actions (trace g)
                @ concat (map (\<lambda>k. [Call, Wait (?w k)]) [1..<maxRetries]) @ [Call]"
      by (auto simp: fin)
    from h obtain e where "result_at (fn maxRetries) t = Inl e" by blast
    with r show "\<exists>g' e t. retryWithBackoff fn maxRetries baseDelay g = (Some (Inl e), g')
                \<and> result_at (fn maxRetries) t = Inl e
                \<and> trace g' = trace g @ attempt_events (nextId g) (start_time g) fn ?w [1..<Suc maxRetries]
                \<and> actions (trace g') = actions (trace g)
                     @ concat (map (\<lambda>attempt. [Call, Wait (?w attempt)]) [1..<maxRetries]) @ [Call]"
      by auto
  }
qed

theorem retry_transient_witness:
  "idle (init 0 :: nat governor)
   \<and> of_nat 6000 * 3 ^ 3 \<le> TIMEOUT_MAX
   \<and> retryable_error (Error (Some ''503 Service Unavailable: the model is overloaded''))
   \<and> \<not> quota_error (Error (Some ''503 Service Unavailable: the model is overloaded''))
   \<and> (\<exists>g'. retryWithBackoff (failing_once (Error (Some ''503 Service Unavailable: the model is overloaded'')) 7)
              3 6000 (init 0 :: nat governor) = (Some (Inr 7), g')
          \<and> start_times (trace g') = [5000, 11000]
          \<and> actions (trace g') = [Call, Wait 6000, Call])
   \<and> (\<exists>g'. retryWithBackoff (failing (Error (Some ''503 Service Unavailable: the model is overloaded'')))
              3 6000 (init 0 :: nat governor)
              = (Some (Inl (Error (Some ''503 Service Unavailable: the model is overloaded''))), g')
          \<and> trace g' =
              [Started 0 (failing (Error (Some ''503 Service Unavailable: the model is overloaded'')) 1) 5000,
               Settled 0 5000 (Inl (Error (Some ''503 Service Unavailable: the model is overloaded''))),
               Backoff 6000 5000 11000,
               Started 1 (failing (Error (Some ''503 Service Unavailable: the model is overloaded'')) 2) 11000,
               Settled 1 11000 (Inl (Error (Some ''503 Service Unavailable: the model is overloaded''))),
               Backoff 9000 11000 20000,
               Started 2 (failing (Error (Some ''503 Service Unavailable: the model is overloaded'')) 3) 20000,
               Settled 2 20000 (Inl (Error (Some ''503 Service Unavailable: the model is overloaded'')))]
          \<and> start_times (trace g') = [5000, 11000, 20000]
          \<and> actions (trace g') = [Call, Wait 6000, Call, Wait 9000, Call])"
proof -
  let ?e = "Error (Some ''503 Service Unavailable: the model is overloaded'')"
  have r: "retryable_error ?e" by (simp add: retryable_error_def)
  have q: "\<not> quota_error ?e" by (simp add: quota_error_def)
  have l: "of_nat 6000 * 3 ^ 3 \<le> TIMEOUT_MAX"
    by (simp add: TIMEOUT_MAX_def)
  have s: "start_time (init 0 :: nat governor) = 5000" "nextId (init 0 :: nat governor) = 0"
    by (simp_all add: start_time_def init_def MIN_REQUEST_INTERVAL_def)
  let ?w = "\<lambda>attempt. of_nat 6000 * (3 / 2) ^ (attempt - 1) :: rat"
  have "\<exists>g'. retryWithBackoff (failing_once ?e 7) 3 6000 (init 0 :: nat governor) = (Some (Inr 7), g')
      \<and> trace g' = trace (init 0 :: nat governor)
          @ attempt_events (nextId (init 0 :: nat governor)) (start_time (init 0 :: nat governor))
              (failing_once ?e 7) ?w [1..<Suc 2]
      \<and> actions (trace g') = actions (trace (init 0 :: nat governor))
          @ concat (map (\<lambda>attempt. [Call, Wait (?w attempt)]) [1..<2]) @ [Call]"
    using retry_transient [where g = "init 0 :: nat governor" and baseDelay = 6000
        and maxRetries = 3 and n = 2 and fn = "failing_once ?e 7" and v = "7::nat",
        OF idle_init _ l, THEN conjunct1]
    by (simp add: r q failing_once_def)
  then obtain g1 where g1: "retryWithBackoff (failing_once ?e 7) 3 6000 (init 0 :: nat governor)
        = (Some (Inr 7), g1)"
    "trace g1 = trace (init 0 :: nat governor)
          @ attempt_events (nextId (init 0 :: nat governor)) (start_time (init 0 :: nat governor))
              (failing_once ?e 7) ?w [1..<Suc 2]"
    "actions (trace g1) = actions (trace (init 0 :: nat governor))
          @ concat (map (\<lambda>attempt. [Call, Wait (?w attempt)]) [1..<2]) @ [Call]"
    by blast
  have "trace g1 = [Started 0 (failing_once ?e 7 1) 5000, Settled 0 5000 (Inl ?e),
                    Backoff 6000 5000 11000,
                    Started 1 (failing_once ?e 7 2) 11000, Settled 1 11000 (Inr 7)]"
    by (simp add: g1(2) s upt_1_3 failing_once_def trace_init spaced_start_def
          MIN_REQUEST_INTERVAL_def)
  then have "start_times (trace g1) = [5000, 11000]"
    by simp
  moreover have "actions (trace g1) = [Call, Wait 6000, Call]"
    by (simp add: g1(3) trace_init upt_1_2)
  ultimately have a: "\<exists>g'. retryWithBackoff (failing_once ?e 7) 3 6000 (init 0 :: nat governor)
        = (Some (Inr 7), g')
      \<and> start_times (trace g') = [5000, 11000] \<and> actions (trace g') = [Call, Wait 6000, Call]"
    using g1(1) by blast
  have "\<exists>g'. retryWithBackoff (failing ?e) 3 6000 (init 0 :: nat governor) = (Some (Inl ?e), g')
      \<and> trace g' = trace (init 0 :: nat governor)
          @ attempt_events (nextId (init 0 :: nat governor)) (start_time (init 0 :: nat governor))
              (failing ?e) ?w [1..<Suc 3]
      \<and> actions (trace g') = actions (trace (init 0 :: nat governor))
          @ concat (map (\<lambda>attempt. [Call, Wait (?w attempt)]) [1..<3]) @ [Call]"
    using retry_transient [where g = "init 0 :: nat governor" and baseDelay = 6000
        and maxRetries = 3 and n = 1 and fn = "failing ?e" and v = "0::nat",
        OF idle_init _ l, THEN conjunct2]
    by (simp add: r q failing_def)
  then obtain g2 where g2: "retryWithBackoff (failing ?e) 3 6000 (init 0 :: nat governor)
        = (Some (Inl ?e), g2)"
    "trace g2 = trace (init 0 :: nat governor)
          @ attempt_events (nextId (init 0 :: nat governor)) (start_time (init 0 :: nat governor))
              (failing ?e) ?w [1..<Suc 3]"
    "actions (trace g2) = actions (trace (init 0 :: nat governor))
          @ concat (map (\<lambda>attempt. [Call, Wait (?w attempt)]) [1..<3]) @ [Call]"
    by blast
  have t2: "trace g2 = [Started 0 (failing ?e 1) 5000, Settled 0 5000 (Inl ?e), Backoff 6000 5000 11000,
                    Started 1 (failing ?e 2) 11000, Settled 1 11000 (Inl ?e), Backoff 9000 11000 20000,
                    Started 2 (failing ?e 3) 20000, Settled 2 20000 (Inl ?e)]"
    by (simp add: g2(2) s upt_1_4 failing_def trace_init spaced_start_def
          MIN_REQUEST_INTERVAL_def)
  then have "start_times (trace g2) = [5000, 11000, 20000]"
    by simp
  moreover have "actions (trace g2) = [Call, Wait 6000, Call, Wait 9000, Call]"
    by (simp add: g2(3) trace_init upt_1_3)
  ultimately have b: "\<exists>g'. retryWithBackoff (failing ?e) 3 6000 (init 0 :: nat governor)
        = (Some (Inl ?e), g')
      \<and> trace g' = [Started 0 (failing ?e 1) 5000, Settled 0 5000 (Inl ?e), Backoff 6000 5000 11000,
                    Started 1 (failing ?e 2) 11000, Settled 1 11000 (Inl ?e), Backoff 9000 11000 20000,
                    Started 2 (failing ?e 3) 20000, Settled 2 20000 (Inl ?e)]
      \<and> start_times (trace g') = [5000, 11000, 20000]
      \<and> actions (trace g') = [Call, Wait 6000, Call, Wait 9000, Call]"
    using g2(1) t2 by blast
  show ?thesis using a b r q l idle_init by blast
qed
section \<open>Properties of the generators\<close>

lemma pushOtherTasks_appends:
  "\<exists>others_built. pushOtherTasks now index ts tasks = tasks @ others_built \<and> list_all (\<lambda>t. \<not> isGIA t) others_built"
proof (induction ts arbitrary: index tasks)
  case Nil
  then show ?case by simp
next
  case (Cons t ts)
  let ?tasks' = "case t of
          Some (Other (Some txt)) \<Rightarrow>
            if txt \<noteq> []
            then tasks @ [\<lparr>task_id = ''task_'' @ string_of_nat now @ ''_'' @ string_of_nat index,
                           task_text = txt, isCompleted = False, isGIA = False\<rparr>]
            else tasks
        | _ \<Rightarrow> tasks"
  have "\<exists>m1. ?tasks' = tasks @ m1 \<and> list_all (\<lambda>t. \<not> isGIA t) m1"
  proof (cases t)
    case None
    then show ?thesis by simp
  next
    case (Some ot)
    then show ?thesis by (cases ot; cases "other_task ot"; simp)
  qed
  then obtain m1 where m1: "?tasks' = tasks @ m1" "list_all (\<lambda>t. \<not> isGIA t) m1"
    by blast
  from Cons [of "Suc index" ?tasks']
  obtain m2 where m2: "pushOtherTasks now (Suc index) ts ?tasks' = ?tasks' @ m2"
    "list_all (\<lambda>t. \<not> isGIA t) m2"
    by blast
  have "pushOtherTasks now index (t # ts) tasks = tasks @ (m1 @ m2)"
    using m1(1) m2(1) by simp
  moreover have "list_all (\<lambda>t. \<not> isGIA t) (m1 @ m2)"
    using m1(2) m2(2) by simp
  ultimately show ?case by blast
qed

lemma buildTasks_shape:
  "\<exists>first others_built. buildTasks now planData = first @ others_built \<and> length first \<le> 1
     \<and> list_all (\<lambda>t. \<not> isGIA t) others_built"
proof -
  let ?t1 = "case gia planData of
                      Some (Gia (Some txt) reason) \<Rightarrow>
                        if txt \<noteq> []
                        then [] @ [\<lparr>task_id = ''task_'' @ string_of_nat now @ ''_gia'',
                                        task_text = txt, isCompleted = False, isGIA = True\<rparr>]
                        else []
                    | _ \<Rightarrow> []"
  let ?t2 = "case otherTasks planData of
                      Some ts \<Rightarrow> pushOtherTasks now 0 ts ?t1
                    | None \<Rightarrow> ?t1"
  have l1: "length ?t1 \<le> 1"
    by (auto split: option.splits gia_t.splits)
  have "\<exists>m2. ?t2 = ?t1 @ m2 \<and> list_all (\<lambda>t. \<not> isGIA t) m2"
    using pushOtherTasks_appends [of now 0 _ ?t1]
    by (cases "otherTasks planData"; simp)
  then obtain m2 where m2: "?t2 = ?t1 @ m2" "list_all (\<lambda>t. \<not> isGIA t) m2"
    by blast
  have "\<exists>m3. buildTasks now planData = ?t2 @ m3 \<and> list_all (\<lambda>t. \<not> isGIA t) m3"
    by (cases "motivationalQuote planData"; simp add: buildTasks_def Let_def)
  then obtain m3 where m3: "buildTasks now planData = ?t2 @ m3" "list_all (\<lambda>t. \<not> isGIA t) m3"
    by blast
  have "buildTasks now planData = ?t1 @ (m2 @ m3)"
    using m2(1) m3(1) by simp
  moreover have "list_all (\<lambda>t. \<not> isGIA t) (m2 @ m3)"
    using m2(2) m3(2) by simp
  ultimately show ?thesis using l1 by blast
qed

lemma one_gia_first:
  assumes "tasks = first @ others_built" and "length first \<le> 1" and "list_all (\<lambda>t. \<not> isGIA t) others_built"
  shows "length (filter isGIA tasks) \<le> 1 \<and> ((\<exists>t \<in> set tasks. isGIA t) \<longrightarrow> isGIA (hd tasks))"
proof -
  have none: "filter isGIA others_built = []"
    using assms(3) by (induction others_built) auto
  show ?thesis
  proof (cases first)
    case Nil
    with assms none show ?thesis
      by (auto simp: list_all_iff)
  next
    case (Cons t tl_first)
    with assms(2) have "first = [t]" by simp
    with assms none show ?thesis
      by (auto simp: list_all_iff)
  qed
qed

lemma pushOtherTasks_all:
  assumes "\<forall>s \<in> set others. s \<noteq> []"
  shows "pushOtherTasks now index (map (\<lambda>s. Some (Other (Some s))) others) tasks
           = tasks @ map (other_task_of now) (enumerate index others)"
  using assms
  by (induction others arbitrary: index tasks) (auto simp: other_task_of_def)

lemma buildTasks_plan_response:
  assumes "giaTask \<noteq> []" and "quote \<noteq> []" and "\<forall>s \<in> set others. s \<noteq> []"
  shows "buildTasks now (plan_response giaTask reason others quote)
           = [gia_task_of now giaTask] @ map (other_task_of now) (enumerate 0 others)
               @ [quote_task_of now quote]"
  using assms
  by (simp add: buildTasks_def plan_response_def pushOtherTasks_all gia_task_of_def quote_task_of_def)

lemma handleAPIError_defined:
  "e \<noteq> Undefined \<Longrightarrow> \<exists>m \<in> set user_messages. handleAPIError e = Inr m"
  by (simp add: handleAPIError_def user_messages_def)

lemma result_at_dailyPlanOperation:
  "result_at (dailyPlanOperation generateContent JSON_parse k) t =
     (case snd (generateContent k) of
        Inl e \<Rightarrow> Inl e
      | Inr response \<Rightarrow> planFromResponse JSON_parse t response)"
  by (simp add: dailyPlanOperation_def)

lemma planFromResponse_tasks:
  "planFromResponse JSON_parse now response = Inr tasks \<Longrightarrow>
     tasks \<noteq> [] \<and> (\<exists>planData. tasks = buildTasks now planData)"
  by (auto simp: planFromResponse_def Let_def split: option.splits if_splits parsed.splits)

lemma retryWithBackoff_outcome:
  assumes "idle g" and "1 \<le> M"
  shows "\<exists>r g'. retryWithBackoff fn M B g = (Some r, g') \<and> idle g' \<and>
     (case r of
        Inr v \<Rightarrow> (\<exists>k t. result_at (fn k) t = Inr v)
      | Inl e \<Rightarrow> (e = typeError_message \<and> (\<exists>k t. result_at (fn k) t = Inl Undefined))
             \<or> (e = quota_exhausted \<and> (\<exists>k t e'. result_at (fn k) t = Inl e' \<and> quota_error e'))
             \<or> (e \<noteq> Undefined \<and> \<not> quota_error e \<and> (\<exists>k t. result_at (fn k) t = Inl e)))"
proof -
  from retryLoop_outcome [OF assms(1), of fn M B 1 Undefined]
  obtain r g' where r: "retryLoop fn M B 1 Undefined g = (Some r, g')" "idle g'"
    "retry_outcome fn M 1 Undefined r"
    by blast
  have "case r of
        Inr v \<Rightarrow> (\<exists>k t. result_at (fn k) t = Inr v)
      | Inl e \<Rightarrow> (e = typeError_message \<and> (\<exists>k t. result_at (fn k) t = Inl Undefined))
             \<or> (e = quota_exhausted \<and> (\<exists>k t e'. result_at (fn k) t = Inl e' \<and> quota_error e'))
             \<or> (e \<noteq> Undefined \<and> \<not> quota_error e \<and> (\<exists>k t. result_at (fn k) t = Inl e))"
    using r(3) assms(2) by (cases r) (auto simp: retry_outcome_def)
  with r(1,2) show ?thesis unfolding retryWithBackoff_def by blast
qed

lemma thrown_defined:
  assumes "(e = typeError_message \<and> P) \<or> (e = quota_exhausted \<and> Q) \<or> (e \<noteq> Undefined \<and> R)"
  shows "e \<noteq> Undefined"
  using assms by (auto simp: typeError_message_def quota_exhausted_def)

lemma getDailyPlan_valid:
  assumes "valid_inputs userProfile userGoal"
  shows "getDailyPlan generateContent JSON_parse userProfile userGoal g =
     (case retryWithBackoff (dailyPlanOperation generateContent JSON_parse)
                   DEFAULT_MAX_RETRIES DEFAULT_BASE_DELAY g of
        (None, g') \<Rightarrow> (None, g')
      | (Some (Inr tasks), g') \<Rightarrow> (Some (Inr tasks), g')
      | (Some (Inl error), g') \<Rightarrow>
          (case handleAPIError error of
             Inl e \<Rightarrow> (Some (Inl e), g')
           | Inr userFriendlyMessage \<Rightarrow> (Some (Inl (Error (Some userFriendlyMessage))), g')))"
  using assms
  by (cases userGoal; cases userProfile; simp add: valid_inputs_def getDailyPlan_def)

lemma getDailyPlan_outcome:
  assumes "idle g" and "valid_inputs userProfile userGoal"
  shows "\<exists>r g'. getDailyPlan generateContent JSON_parse userProfile userGoal g = (Some r, g')
     \<and> idle g'
     \<and> (case r of
          Inr tasks \<Rightarrow> (\<exists>k t. result_at (dailyPlanOperation generateContent JSON_parse k) t = Inr tasks)
        | Inl e \<Rightarrow> (\<exists>m \<in> set user_messages. e = Error (Some m)))"
proof -
  let ?fn = "dailyPlanOperation generateContent JSON_parse"
  from retryWithBackoff_outcome [OF assms(1), of DEFAULT_MAX_RETRIES ?fn DEFAULT_BASE_DELAY]
  obtain r g' where r: "retryWithBackoff ?fn DEFAULT_MAX_RETRIES DEFAULT_BASE_DELAY g = (Some r, g')"
    "idle g'"
    "case r of
        Inr v \<Rightarrow> (\<exists>k t. result_at (?fn k) t = Inr v)
      | Inl e \<Rightarrow> (e = typeError_message \<and> (\<exists>k t. result_at (?fn k) t = Inl Undefined))
             \<or> (e = quota_exhausted \<and> (\<exists>k t e'. result_at (?fn k) t = Inl e' \<and> quota_error e'))
             \<or> (e \<noteq> Undefined \<and> \<not> quota_error e \<and> (\<exists>k t. result_at (?fn k) t = Inl e))"
    by (auto simp: DEFAULT_MAX_RETRIES_def)
  show ?thesis
  proof (cases r)
    case (Inr tasks)
    with r show ?thesis
      by (simp add: getDailyPlan_valid [OF assms(2)])
  next
    case (Inl e)
    with r(3) have "e \<noteq> Undefined" using thrown_defined by simp
    from handleAPIError_defined [OF this]
    obtain m where "m \<in> set user_messages" "handleAPIError e = Inr m" by blast
    with r Inl show ?thesis
      by (simp add: getDailyPlan_valid [OF assms(2)])
  qed
qed

text \<open>
  Claim C9. Whenever \<open>getDailyPlan\<close>, called on an idle governor, succeeds, the list it
  returns is not empty, holds at most one task with \<open>isGIA\<close> true, and such a task, if
  there is one, is the first of the list.
\<close>

theorem daily_plan_one_gia:
  assumes "idle g"
    and "getDailyPlan generateContent JSON_parse userProfile userGoal g = (Some (Inr tasks), g')"
  shows "tasks \<noteq> [] \<and> length (filter isGIA tasks) \<le> 1
     \<and> ((\<exists>t \<in> set tasks. isGIA t) \<longrightarrow> isGIA (hd tasks))"
proof -
  have v: "valid_inputs userProfile userGoal"
    using assms(2)
    by (cases userGoal; cases userProfile; auto simp: valid_inputs_def getDailyPlan_def split: if_splits)
  from getDailyPlan_outcome [OF assms(1) v, of generateContent JSON_parse] assms(2)
  obtain k t where "result_at (dailyPlanOperation generateContent JSON_parse k) t = Inr tasks"
    by auto
  then obtain response where "planFromResponse JSON_parse t response = Inr tasks"
    by (auto simp: result_at_dailyPlanOperation split: sum.splits)
  from planFromResponse_tasks [OF this]
  obtain planData where p: "tasks \<noteq> []" "tasks = buildTasks t planData" by blast
  from buildTasks_shape [of t planData] p(2)
  obtain first others_built where "tasks = first @ others_built" "length first \<le> 1"
    "list_all (\<lambda>t. \<not> isGIA t) others_built"
    by auto
  from one_gia_first [OF this] p(1) show ?thesis by simp
qed

text \<open>
  Claim C8. When the goal is missing or its title is empty, or the profile is missing or its
  identity is empty, \<open>getDailyPlan\<close> fails at once with the validation error, and the
  governor is left exactly as it was: nothing is enqueued, no operation is started (so the
  generation service is not called), and no wait or retry takes place.
\<close>

theorem daily_plan_validation:
  assumes "\<not> valid_inputs userProfile userGoal"
  shows "getDailyPlan generateContent JSON_parse userProfile userGoal g =
     (Some (Inl (Error (Some
        (if (case userGoal of None \<Rightarrow> True | Some gl \<Rightarrow> title gl = [])
         then ''Goal is required to generate daily plan''
         else ''User profile with identity is required'')))), g)"
  using assms
  by (cases userGoal; cases userProfile; auto simp: valid_inputs_def getDailyPlan_def)

lemma duration_dailyPlanOperation:
  "duration (dailyPlanOperation generateContent JSON_parse k) = fst (generateContent k)"
  by (simp add: dailyPlanOperation_def)

lemma getDailyPlan_first_attempt:
  assumes "idle g" and "valid_inputs userProfile userGoal"
    and "snd (generateContent 1) = Inr response"
    and "planFromResponse JSON_parse (start_time g + fst (generateContent 1)) response = Inr tasks"
  shows "getDailyPlan generateContent JSON_parse userProfile userGoal g =
     (Some (Inr tasks), snd (awaited_request (dailyPlanOperation generateContent JSON_parse 1) g))"
  using assms(3,4)
  by (simp add: getDailyPlan_valid [OF assms(2)] retryWithBackoff_def DEFAULT_MAX_RETRIES_def
      retryLoop_idle [OF assms(1)] result_at_dailyPlanOperation duration_dailyPlanOperation)

lemma fatal_error:
  assumes "e \<noteq> Undefined" and "\<not> quota_error e" and "\<not> retryable_error e"
    and "result_at (fn 1) (start_time g + duration (fn 1)) = Inl e" and "idle g" and "1 \<le> M"
  shows "retryWithBackoff fn M B g = (Some (Inl e), snd (awaited_request (fn 1) g))"
  using assms
  by (simp add: retryWithBackoff_def retryLoop_idle [OF assms(5)] on_error_fatal)

lemma malformed_fatal:
  assumes "e = Error (Some ''Empty response from Gemini API'')
         \<or> e = Error (Some ''Invalid response format from AI'')
         \<or> e = Error (Some ''No valid tasks generated'')"
  shows "e \<noteq> Undefined" and "\<not> quota_error e" and "\<not> retryable_error e"
    and "handleAPIError e = Inr unavailable_message"
  using assms by (auto simp: quota_error_def retryable_error_def handleAPIError_def)

lemma getDailyPlan_malformed:
  assumes "idle g" and "valid_inputs userProfile userGoal"
    and "snd (generateContent 1) = Inr response"
    and "planFromResponse JSON_parse (start_time g + fst (generateContent 1)) response = Inl e"
    and "e = Error (Some ''Empty response from Gemini API'')
         \<or> e = Error (Some ''Invalid response format from AI'')
         \<or> e = Error (Some ''No valid tasks generated'')"
  shows "fst (getDailyPlan generateContent JSON_parse userProfile userGoal g)
           = Some (Inl (Error (Some unavailable_message)))"
proof -
  let ?fn = "dailyPlanOperation generateContent JSON_parse"
  have "result_at (?fn 1) (start_time g + duration (?fn 1)) = Inl e"
    using assms(3,4) by (simp add: result_at_dailyPlanOperation duration_dailyPlanOperation)
  from fatal_error [where fn = ?fn and M = DEFAULT_MAX_RETRIES and B = DEFAULT_BASE_DELAY,
      OF malformed_fatal(1-3) [OF assms(5)] this assms(1)]
  have "retryWithBackoff ?fn DEFAULT_MAX_RETRIES DEFAULT_BASE_DELAY g
          = (Some (Inl e), snd (awaited_request (?fn 1) g))"
    by (simp add: DEFAULT_MAX_RETRIES_def)
  then show ?thesis
    by (simp add: getDailyPlan_valid [OF assms(2)] malformed_fatal(4) [OF assms(5)])
qed

lemma planFromResponse_malformed:
  assumes "response = None \<or> response = Some []
     \<or> (\<exists>txt. response = Some txt
           \<and> (JSON_parse (trim txt) = SyntaxError
               \<or> (\<exists>planData. JSON_parse (trim txt) = Parsed planData
                     \<and> buildTasks now planData = [])))"
  shows "\<exists>e. planFromResponse JSON_parse now response = Inl e
     \<and> (e = Error (Some ''Empty response from Gemini API'')
         \<or> e = Error (Some ''Invalid response format from AI'')
         \<or> e = Error (Some ''No valid tasks generated''))"
  using assms by (auto simp: planFromResponse_def)

text \<open>
  Claim C6 (as amended). For a response whose text parses as \<open>{gia: {task, reason},
  otherTasks: [{task}, ...], motivationalQuote}\<close> where the GIA task, every supporting task
  and the quote are non-empty strings, \<open>getDailyPlan\<close> returns, in this order: the GIA
  task with \<open>isGIA\<close> true, each supporting task in order with \<open>isGIA\<close> false and
  its index in its identifier, and last a task whose text is the quote, with \<open>isGIA\<close>
  false and an identifier ending in \<open>_quote\<close>.
\<close>

theorem daily_plan_ordered:
  assumes "idle g" and "valid_inputs userProfile userGoal"
    and "snd (generateContent 1) = Inr (Some txt)" and "txt \<noteq> []"
    and "JSON_parse (trim txt) = Parsed (plan_response giaTask reason others quote)"
    and "giaTask \<noteq> []" and "quote \<noteq> []" and "\<forall>s \<in> set others. s \<noteq> []"
  shows "\<exists>g'. getDailyPlan generateContent JSON_parse userProfile userGoal g =
     (Some (Inr
        ([\<lparr>task_id = ''task_'' @ string_of_nat (start_time g + fst (generateContent 1)) @ ''_gia'',
           task_text = giaTask, isCompleted = False, isGIA = True\<rparr>]
         @ map (\<lambda>(index, s).
                  \<lparr>task_id = ''task_'' @ string_of_nat (start_time g + fst (generateContent 1))
                               @ ''_'' @ string_of_nat index,
                   task_text = s, isCompleted = False, isGIA = False\<rparr>)
               (enumerate 0 others)
         @ [\<lparr>task_id = ''task_'' @ string_of_nat (start_time g + fst (generateContent 1)) @ ''_quote'',
             task_text = quote, isCompleted = False, isGIA = False\<rparr>])), g')"
proof -
  let ?now = "start_time g + fst (generateContent 1)"
  let ?tasks = "[gia_task_of ?now giaTask] @ map (other_task_of ?now) (enumerate 0 others)
                  @ [quote_task_of ?now quote]"
  have "planFromResponse JSON_parse ?now (Some txt) = Inr ?tasks"
    using assms(4,5) buildTasks_plan_response [OF assms(6,7,8), of ?now reason]
    by (simp add: planFromResponse_def)
  from getDailyPlan_first_attempt [where generateContent = generateContent, OF assms(1,2,3) this]
  have "\<exists>g'. getDailyPlan generateContent JSON_parse userProfile userGoal g = (Some (Inr ?tasks), g')"
    by blast
  moreover have "other_task_of ?now = (\<lambda>(index, s).
                  \<lparr>task_id = ''task_'' @ string_of_nat ?now @ ''_'' @ string_of_nat index,
                   task_text = s, isCompleted = False, isGIA = False\<rparr>)"
    by (auto simp: other_task_of_def fun_eq_iff)
  ultimately show ?thesis
    by (simp add: gia_task_of_def quote_task_of_def)
qed

lemma planFromResponse_Inr:
  assumes "planFromResponse JSON_parse now response = Inr tasks"
  shows "\<exists>txt planData. response = Some txt \<and> txt \<noteq> [] \<and> JSON_parse (trim txt) = Parsed planData
     \<and> tasks = buildTasks now planData \<and> tasks \<noteq> []"
  using assms
  by (auto simp: planFromResponse_def Let_def split: option.splits if_splits parsed.splits)

lemma dailyPlanOperation_Inr:
  assumes "result_at (dailyPlanOperation generateContent JSON_parse k) t = Inr tasks"
  shows "\<exists>txt planData. snd (generateContent k) = Inr (Some txt) \<and> txt \<noteq> []
     \<and> JSON_parse (trim txt) = Parsed planData \<and> tasks = buildTasks t planData \<and> tasks \<noteq> []"
proof -
  from assms obtain response where "snd (generateContent k) = Inr response"
    "planFromResponse JSON_parse t response = Inr tasks"
    by (auto simp: result_at_dailyPlanOperation split: sum.splits)
  with planFromResponse_Inr [OF this(2)] show ?thesis by auto
qed

lemma handleAPIError_category:
  "e \<noteq> Undefined \<Longrightarrow> handleAPIError e = Inr (message_of (category_of e))"
  by (simp add: handleAPIError_def category_of_def)

lemma message_of_user: "message_of c \<in> set user_messages"
  by (cases c) (simp_all add: user_messages_def)

lemma category_of_quota:
  "category_of quota_exhausted = QuotaExceeded" "quota_error e \<Longrightarrow> category_of e = QuotaExceeded"
  by (auto simp: category_of_def quota_exhausted_def quota_error_def)

lemma getDailyPlan_constant_failure:
  assumes "idle g" and "valid_inputs userProfile userGoal" and "e \<noteq> Undefined"
    and "\<And>k. snd (generateContent k) = Inl e"
  shows "fst (getDailyPlan generateContent JSON_parse userProfile userGoal g)
           = Some (Inl (Error (Some (message_of (category_of e)))))"
proof -
  let ?fn = "dailyPlanOperation generateContent JSON_parse"
  have res: "result_at (?fn k) t = Inl e" for k t
    by (simp add: result_at_dailyPlanOperation assms(4))
  from retryWithBackoff_outcome [OF assms(1), of DEFAULT_MAX_RETRIES ?fn DEFAULT_BASE_DELAY]
  obtain r g' where r: "retryWithBackoff ?fn DEFAULT_MAX_RETRIES DEFAULT_BASE_DELAY g = (Some r, g')"
    "case r of
        Inr v \<Rightarrow> (\<exists>k t. result_at (?fn k) t = Inr v)
      | Inl e \<Rightarrow> (e = typeError_message \<and> (\<exists>k t. result_at (?fn k) t = Inl Undefined))
             \<or> (e = quota_exhausted \<and> (\<exists>k t e'. result_at (?fn k) t = Inl e' \<and> quota_error e'))
             \<or> (e \<noteq> Undefined \<and> \<not> quota_error e \<and> (\<exists>k t. result_at (?fn k) t = Inl e))"
    by (auto simp: DEFAULT_MAX_RETRIES_def)
  show ?thesis
  proof (cases r)
    case (Inr v)
    with r(2) res show ?thesis by simp
  next
    case (Inl e')
    with r(2) res assms(3) have "(e' = quota_exhausted \<and> quota_error e) \<or> e' = e"
      by auto
    then have c: "category_of e' = category_of e"
      by (auto simp: category_of_quota)
    from Inl r(2) have "e' \<noteq> Undefined" using thrown_defined by simp
    then have "handleAPIError e' = Inr (message_of (category_of e))"
      by (simp add: handleAPIError_category c)
    with r(1) Inl show ?thesis
      by (simp add: getDailyPlan_valid [OF assms(2)])
  qed
qed

text \<open>
  Claim C7 (as amended). With valid inputs and an idle governor, \<open>getDailyPlan\<close>
  succeeds only with the tasks built from a response of some attempt that is not empty, whose
  text parses and yields at least one task. Otherwise it fails, and the error that reaches
  its outer handler (the one thrown by \<open>retryWithBackoff\<close>) is replaced by an error
  whose message is that of the category in which the tests of \<open>handleAPIError\<close> put
  it, one of the four fixed messages. In particular it fails with the message for an
  unavailable service when the first response is empty, when its text cannot be parsed, or
  when the parsed response yields no task; and when the upstream call fails with the same
  error at every attempt, it fails with the message of the category of that error.
\<close>

theorem daily_plan_failures:
  assumes "idle g" and "valid_inputs userProfile userGoal"
  shows "(\<exists>r g'. getDailyPlan generateContent JSON_parse userProfile userGoal g = (Some r, g')
            \<and> ((\<exists>tasks k txt planData now. r = Inr tasks
                   \<and> snd (generateContent k) = Inr (Some txt) \<and> txt \<noteq> []
                   \<and> JSON_parse (trim txt) = Parsed planData
                   \<and> tasks = buildTasks now planData \<and> tasks \<noteq> [])
               \<or> (\<exists>e. retryWithBackoff (dailyPlanOperation generateContent JSON_parse)
                          DEFAULT_MAX_RETRIES DEFAULT_BASE_DELAY g = (Some (Inl e), g')
                     \<and> r = Inl (Error (Some (message_of (category_of e))))
                     \<and> message_of (category_of e) \<in> set user_messages)))
       \<and> (snd (generateContent 1) = Inr None \<or> snd (generateContent 1) = Inr (Some [])
          \<or> (\<exists>txt. snd (generateContent 1) = Inr (Some txt)
                \<and> (JSON_parse (trim txt) = SyntaxError
                    \<or> (\<exists>planData. JSON_parse (trim txt) = Parsed planData
                          \<and> (\<forall>now. buildTasks now planData = []))))
          \<longrightarrow> fst (getDailyPlan generateContent JSON_parse userProfile userGoal g)
                = Some (Inl (Error (Some unavailable_message))))
       \<and> (error \<noteq> Undefined \<and> (\<forall>k. snd (generateContent k) = Inl error)
          \<longrightarrow> fst (getDailyPlan generateContent JSON_parse userProfile userGoal g)
                = Some (Inl (Error (Some (message_of (category_of error))))))"
proof (intro conjI impI)
  let ?fn = "dailyPlanOperation generateContent JSON_parse"
  from retryWithBackoff_outcome [OF assms(1), of DEFAULT_MAX_RETRIES ?fn DEFAULT_BASE_DELAY]
  obtain r0 g' where r0: "retryWithBackoff ?fn DEFAULT_MAX_RETRIES DEFAULT_BASE_DELAY g = (Some r0, g')"
    "case r0 of
        Inr v \<Rightarrow> (\<exists>k t. result_at (?fn k) t = Inr v)
      | Inl e \<Rightarrow> (e = typeError_message \<and> (\<exists>k t. result_at (?fn k) t = Inl Undefined))
             \<or> (e = quota_exhausted \<and> (\<exists>k t e'. result_at (?fn k) t = Inl e' \<and> quota_error e'))
             \<or> (e \<noteq> Undefined \<and> \<not> quota_error e \<and> (\<exists>k t. result_at (?fn k) t = Inl e))"
    by (auto simp: DEFAULT_MAX_RETRIES_def)
  show "\<exists>r g'. getDailyPlan generateContent JSON_parse userProfile userGoal g = (Some r, g')
            \<and> ((\<exists>tasks k txt planData now. r = Inr tasks
                   \<and> snd (generateContent k) = Inr (Some txt) \<and> txt \<noteq> []
                   \<and> JSON_parse (trim txt) = Parsed planData
                   \<and> tasks = buildTasks now planData \<and> tasks \<noteq> [])
               \<or> (\<exists>e. retryWithBackoff ?fn DEFAULT_MAX_RETRIES DEFAULT_BASE_DELAY g = (Some (Inl e), g')
                     \<and> r = Inl (Error (Some (message_of (category_of e))))
                     \<and> message_of (category_of e) \<in> set user_messages))"
  proof (cases r0)
    case (Inr tasks)
    with r0(2) obtain k t where "result_at (?fn k) t = Inr tasks"
      by auto
    from dailyPlanOperation_Inr [OF this]
    have "\<exists>k txt planData now. snd (generateContent k) = Inr (Some txt) \<and> txt \<noteq> []
        \<and> JSON_parse (trim txt) = Parsed planData
        \<and> tasks = buildTasks now planData \<and> tasks \<noteq> []"
      by blast
    moreover have "getDailyPlan generateContent JSON_parse userProfile userGoal g = (Some (Inr tasks), g')"
      using r0(1) Inr by (simp add: getDailyPlan_valid [OF assms(2)])
    ultimately show ?thesis by blast
  next
    case (Inl e)
    with r0(2) have "e \<noteq> Undefined" using thrown_defined by simp
    then have "handleAPIError e = Inr (message_of (category_of e))"
      by (rule handleAPIError_category)
    with r0(1) Inl
    have "getDailyPlan generateContent JSON_parse userProfile userGoal g
            = (Some (Inl (Error (Some (message_of (category_of e))))), g')"
      by (simp add: getDailyPlan_valid [OF assms(2)])
    moreover have "retryWithBackoff ?fn DEFAULT_MAX_RETRIES DEFAULT_BASE_DELAY g = (Some (Inl e), g')"
      using r0(1) Inl by simp
    ultimately show ?thesis using message_of_user [of "category_of e"] by blast
  qed
next
  let ?now = "start_time g + fst (generateContent 1)"
  assume "snd (generateContent 1) = Inr None \<or> snd (generateContent 1) = Inr (Some [])
          \<or> (\<exists>txt. snd (generateContent 1) = Inr (Some txt)
                \<and> (JSON_parse (trim txt) = SyntaxError
                    \<or> (\<exists>planData. JSON_parse (trim txt) = Parsed planData
                          \<and> (\<forall>now. buildTasks now planData = []))))"
  then obtain response where resp: "snd (generateContent 1) = Inr response"
    "response = None \<or> response = Some []
     \<or> (\<exists>txt. response = Some txt
           \<and> (JSON_parse (trim txt) = SyntaxError
               \<or> (\<exists>planData. JSON_parse (trim txt) = Parsed planData
                     \<and> buildTasks ?now planData = [])))"
    by blast
  from planFromResponse_malformed [OF resp(2)]
  obtain e where "planFromResponse JSON_parse ?now response = Inl e"
    "e = Error (Some ''Empty response from Gemini API'')
         \<or> e = Error (Some ''Invalid response format from AI'')
         \<or> e = Error (Some ''No valid tasks generated'')"
    by blast
  from getDailyPlan_malformed [where generateContent = generateContent, OF assms resp(1) this]
  show "fst (getDailyPlan generateContent JSON_parse userProfile userGoal g)
                = Some (Inl (Error (Some unavailable_message)))" .
next
  assume "error \<noteq> Undefined \<and> (\<forall>k. snd (generateContent k) = Inl error)"
  then show "fst (getDailyPlan generateContent JSON_parse userProfile userGoal g)
                = Some (Inl (Error (Some (message_of (category_of error)))))"
    using getDailyPlan_constant_failure [OF assms, of error generateContent JSON_parse] by blast
qed

lemma start_time_init: "start_time (init 0) = 5000"
  by (simp add: start_time_def init_def MIN_REQUEST_INTERVAL_def)

lemma valid_example: "valid_inputs (Some a_profile) (Some a_goal)"
  by (simp add: valid_inputs_def a_profile_def a_goal_def)

lemma answering_simps: "snd (answering txt k) = Inr (Some txt)" "fst (answering txt k) = 0"
  by (simp_all add: answering_def)

lemma plan_text_nonempty: "plan_text \<noteq> []" "plan_text_empty_gia \<noteq> []"
  by (simp_all add: plan_text_def plan_text_empty_gia_def)

theorem daily_plan_ordered_witness:
  "idle (init 0 :: Task list governor)
   \<and> valid_inputs (Some a_profile) (Some a_goal)
   \<and> (\<exists>g'. getDailyPlan (answering plan_text)
          (parsing_as (plan_response ''Run 5k'' ''builds momentum'' [''Drink water''] ''Keep going''))
          (Some a_profile) (Some a_goal) (init 0)
        = (Some (Inr
            [\<lparr>task_id = ''task_5000_gia'', task_text = ''Run 5k'', isCompleted = False, isGIA = True\<rparr>,
             \<lparr>task_id = ''task_5000_0'', task_text = ''Drink water'', isCompleted = False, isGIA = False\<rparr>,
             \<lparr>task_id = ''task_5000_quote'', task_text = ''Keep going'', isCompleted = False,
               isGIA = False\<rparr>]), g'))"
  using daily_plan_ordered [OF idle_init valid_example,
      of "answering plan_text" plan_text
         "parsing_as (plan_response ''Run 5k'' ''builds momentum'' [''Drink water''] ''Keep going'')"
         "''Run 5k''" "''builds momentum''" "[''Drink water'']" "''Keep going''" 0]
  by (simp add: idle_init valid_example answering_simps plan_text_nonempty parsing_as_def
      start_time_init string_of_nat.simps)

text \<open>
  As stated for every response of that shape, claim C6 fails: with an empty GIA task text
  the list starts with a supporting task, and no task has \<open>isGIA\<close> true.
\<close>

theorem daily_plan_empty_gia_counterexample:
  "fst (getDailyPlan (answering plan_text_empty_gia)
          (parsing_as (plan_response '''' ''builds momentum'' [''Drink water''] ''Keep going''))
          (Some a_profile) (Some a_goal) (init 0))
     = Some (Inr
         [\<lparr>task_id = ''task_5000_0'', task_text = ''Drink water'', isCompleted = False, isGIA = False\<rparr>,
          \<lparr>task_id = ''task_5000_quote'', task_text = ''Keep going'', isCompleted = False,
            isGIA = False\<rparr>])"
proof -
  have "planFromResponse
          (parsing_as (plan_response '''' ''builds momentum'' [''Drink water''] ''Keep going''))
          (start_time (init 0 :: Task list governor) + fst (answering plan_text_empty_gia 1))
          (Some plan_text_empty_gia)
      = Inr [\<lparr>task_id = ''task_5000_0'', task_text = ''Drink water'', isCompleted = False, isGIA = False\<rparr>,
          \<lparr>task_id = ''task_5000_quote'', task_text = ''Keep going'', isCompleted = False,
            isGIA = False\<rparr>]"
    by (simp add: planFromResponse_def plan_text_nonempty parsing_as_def plan_response_def
        buildTasks_def answering_simps start_time_init string_of_nat.simps)
  from getDailyPlan_first_attempt [where generateContent = "answering plan_text_empty_gia",
      OF idle_init valid_example answering_simps(1) this]
  show ?thesis by simp
qed

lemma rejecting_simps: "snd (rejecting e k) = Inl e" "fst (rejecting e k) = 0"
  by (simp_all add: rejecting_def)

theorem daily_plan_failures_witness:
  "idle (init 0 :: Task list governor)
   \<and> valid_inputs (Some a_profile) (Some a_goal)
   \<and> snd (answering ''Sorry, I cannot help with that.'' 1) = Inr (Some ''Sorry, I cannot help with that.'')
   \<and> unparseable (trim ''Sorry, I cannot help with that.'') = SyntaxError
   \<and> fst (getDailyPlan (answering ''Sorry, I cannot help with that.'') unparseable
             (Some a_profile) (Some a_goal) (init 0))
        = Some (Inl (Error (Some unavailable_message)))
   \<and> category_of (Error (Some ''503 Service Unavailable'')) = ServiceUnavailable
   \<and> fst (getDailyPlan (rejecting (Error (Some ''503 Service Unavailable''))) unparseable
             (Some a_profile) (Some a_goal) (init 0))
        = Some (Inl (Error (Some busy_message)))
   \<and> category_of (Error (Some ''401 Unauthorized'')) = AuthError
   \<and> fst (getDailyPlan (rejecting (Error (Some ''401 Unauthorized''))) unparseable
             (Some a_profile) (Some a_goal) (init 0))
        = Some (Inl (Error (Some api_key_message)))
   \<and> category_of (Error (Some ''429 RESOURCE_EXHAUSTED'')) = QuotaExceeded
   \<and> fst (getDailyPlan (rejecting (Error (Some ''429 RESOURCE_EXHAUSTED''))) unparseable
             (Some a_profile) (Some a_goal) (init 0))
        = Some (Inl (Error (Some quota_message)))"
proof -
  have c: "category_of (Error (Some ''503 Service Unavailable'')) = ServiceUnavailable"
    "category_of (Error (Some ''401 Unauthorized'')) = AuthError"
    "category_of (Error (Some ''429 RESOURCE_EXHAUSTED'')) = QuotaExceeded"
    by (simp_all add: category_of_def)
  have "fst (getDailyPlan (answering ''Sorry, I cannot help with that.'') unparseable
             (Some a_profile) (Some a_goal) (init 0))
        = Some (Inl (Error (Some unavailable_message)))"
    using daily_plan_failures [where g = "init 0 :: Task list governor"
        and generateContent = "answering ''Sorry, I cannot help with that.''"
        and JSON_parse = unparseable and error = Undefined,
        OF idle_init valid_example, THEN conjunct2, THEN conjunct1]
    by (simp add: answering_simps unparseable_def)
  moreover have "fst (getDailyPlan (rejecting (Error (Some ''503 Service Unavailable''))) unparseable
             (Some a_profile) (Some a_goal) (init 0))
        = Some (Inl (Error (Some busy_message)))"
    using daily_plan_failures [where g = "init 0 :: Task list governor"
        and generateContent = "rejecting (Error (Some ''503 Service Unavailable''))"
        and JSON_parse = unparseable and error = "Error (Some ''503 Service Unavailable'')",
        OF idle_init valid_example, THEN conjunct2, THEN conjunct2]
    by (simp add: rejecting_simps c)
  moreover have "fst (getDailyPlan (rejecting (Error (Some ''401 Unauthorized''))) unparseable
             (Some a_profile) (Some a_goal) (init 0))
        = Some (Inl (Error (Some api_key_message)))"
    using daily_plan_failures [where g = "init 0 :: Task list governor"
        and generateContent = "rejecting (Error (Some ''401 Unauthorized''))"
        and JSON_parse = unparseable and error = "Error (Some ''401 Unauthorized'')",
        OF idle_init valid_example, THEN conjunct2, THEN conjunct2]
    by (simp add: rejecting_simps c)
  moreover have "fst (getDailyPlan (rejecting (Error (Some ''429 RESOURCE_EXHAUSTED''))) unparseable
             (Some a_profile) (Some a_goal) (init 0))
        = Some (Inl (Error (Some quota_message)))"
    using daily_plan_failures [where g = "init 0 :: Task list governor"
        and generateContent = "rejecting (Error (Some ''429 RESOURCE_EXHAUSTED''))"
        and JSON_parse = unparseable and error = "Error (Some ''429 RESOURCE_EXHAUSTED'')",
        OF idle_init valid_example, THEN conjunct2, THEN conjunct2]
    by (simp add: rejecting_simps c)
  ultimately show ?thesis
    by (simp add: idle_init valid_example answering_simps unparseable_def c)
qed

text \<open>
  As stated, with the message determined by the category of the error, claim C7 fails. The
  classifier of the specification puts an error marked "503" and an error marked "UNAVAILABLE"
  in the same category, an unavailable service; \<open>getDailyPlan\<close> fails with the message
  for a busy service on the first and with the generic message on the second. It puts an
  error marked "free_tier_requests" among the quota errors; \<open>getDailyPlan\<close> fails with
  the generic message, not with the quota message.
\<close>

theorem daily_plan_unavailable_counterexample:
  "classifier_of_spec (Error (Some ''503'')) = ServiceUnavailable
   \<and> classifier_of_spec (Error (Some ''UNAVAILABLE'')) = ServiceUnavailable
   \<and> fst (getDailyPlan (rejecting (Error (Some ''503''))) unparseable
             (Some a_profile) (Some a_goal) (init 0))
        = Some (Inl (Error (Some busy_message)))
   \<and> fst (getDailyPlan (rejecting (Error (Some ''UNAVAILABLE''))) unparseable
             (Some a_profile) (Some a_goal) (init 0))
        = Some (Inl (Error (Some unavailable_message)))
   \<and> busy_message \<noteq> unavailable_message
   \<and> classifier_of_spec (Error (Some ''free_tier_requests'')) = QuotaExceeded
   \<and> fst (getDailyPlan (rejecting (Error (Some ''free_tier_requests''))) unparseable
             (Some a_profile) (Some a_goal) (init 0))
        = Some (Inl (Error (Some unavailable_message)))
   \<and> quota_message \<noteq> unavailable_message"
proof -
  have "fst (getDailyPlan (rejecting (Error (Some ''503''))) unparseable
             (Some a_profile) (Some a_goal) (init 0))
        = Some (Inl (Error (Some busy_message)))"
    using getDailyPlan_constant_failure [where g = "init 0 :: Task list governor"
        and generateContent = "rejecting (Error (Some ''503''))" and JSON_parse = unparseable
        and e = "Error (Some ''503'')", OF idle_init valid_example]
    by (simp add: rejecting_simps category_of_def)
  moreover have "fst (getDailyPlan (rejecting (Error (Some ''UNAVAILABLE''))) unparseable
             (Some a_profile) (Some a_goal) (init 0))
        = Some (Inl (Error (Some unavailable_message)))"
    using getDailyPlan_constant_failure [where g = "init 0 :: Task list governor"
        and generateContent = "rejecting (Error (Some ''UNAVAILABLE''))" and JSON_parse = unparseable
        and e = "Error (Some ''UNAVAILABLE'')", OF idle_init valid_example]
    by (simp add: rejecting_simps category_of_def)
  moreover have "fst (getDailyPlan (rejecting (Error (Some ''free_tier_requests''))) unparseable
             (Some a_profile) (Some a_goal) (init 0))
        = Some (Inl (Error (Some unavailable_message)))"
    using getDailyPlan_constant_failure [where g = "init 0 :: Task list governor"
        and generateContent = "rejecting (Error (Some ''free_tier_requests''))" and JSON_parse = unparseable
        and e = "Error (Some ''free_tier_requests'')", OF idle_init valid_example]
    by (simp add: rejecting_simps category_of_def)
  moreover have "busy_message \<noteq> unavailable_message" "quota_message \<noteq> unavailable_message"
    by (simp_all add: busy_message_def unavailable_message_def quota_message_def)
  ultimately show ?thesis
    by (simp add: classifier_of_spec_def)
qed

theorem daily_plan_validation_witness:
  "\<not> valid_inputs (Some a_profile) (Some \<lparr>goal_id = ''g1'', title = ''''\<rparr>)
   \<and> getDailyPlan (answering plan_text) unparseable
        (Some a_profile) (Some \<lparr>goal_id = ''g1'', title = ''''\<rparr>) (init 0)
      = (Some (Inl (Error (Some ''Goal is required to generate daily plan''))), init 0)"
  using daily_plan_validation [of "Some a_profile" "Some \<lparr>goal_id = ''g1'', title = ''''\<rparr>"
      "answering plan_text" unparseable "init 0"]
  by (simp add: valid_inputs_def)

theorem daily_plan_one_gia_witness:
  "idle (init 0 :: Task list governor)
   \<and> getDailyPlan (answering plan_text)
          (parsing_as (plan_response ''Run 5k'' ''builds momentum'' [''Drink water''] ''Keep going''))
          (Some a_profile) (Some a_goal) (init 0)
        = (Some (Inr
            [\<lparr>task_id = ''task_5000_gia'', task_text = ''Run 5k'', isCompleted = False, isGIA = True\<rparr>,
             \<lparr>task_id = ''task_5000_0'', task_text = ''Drink water'', isCompleted = False, isGIA = False\<rparr>,
             \<lparr>task_id = ''task_5000_quote'', task_text = ''Keep going'', isCompleted = False,
               isGIA = False\<rparr>]),
           snd (awaited_request (dailyPlanOperation (answering plan_text)
                  (parsing_as (plan_response ''Run 5k'' ''builds momentum'' [''Drink water''] ''Keep going'')) 1)
                (init 0)))
   \<and> length (filter isGIA
            [\<lparr>task_id = ''task_5000_gia'', task_text = ''Run 5k'', isCompleted = False, isGIA = True\<rparr>,
             \<lparr>task_id = ''task_5000_0'', task_text = ''Drink water'', isCompleted = False, isGIA = False\<rparr>,
             \<lparr>task_id = ''task_5000_quote'', task_text = ''Keep going'', isCompleted = False,
               isGIA = False\<rparr>]) \<le> 1"
proof -
  let ?parse = "parsing_as (plan_response ''Run 5k'' ''builds momentum'' [''Drink water''] ''Keep going'')"
  let ?tasks = "[\<lparr>task_id = ''task_5000_gia'', task_text = ''Run 5k'', isCompleted = False, isGIA = True\<rparr>,
             \<lparr>task_id = ''task_5000_0'', task_text = ''Drink water'', isCompleted = False, isGIA = False\<rparr>,
             \<lparr>task_id = ''task_5000_quote'', task_text = ''Keep going'', isCompleted = False,
               isGIA = False\<rparr>]"
  have "planFromResponse ?parse
          (start_time (init 0 :: Task list governor) + fst (answering plan_text 1)) (Some plan_text)
      = Inr ?tasks"
    by (simp add: planFromResponse_def plan_text_nonempty parsing_as_def plan_response_def
        buildTasks_def answering_simps start_time_init string_of_nat.simps)
  from getDailyPlan_first_attempt [where generateContent = "answering plan_text",
      OF idle_init valid_example answering_simps(1) this]
  have run: "getDailyPlan (answering plan_text) ?parse (Some a_profile) (Some a_goal) (init 0)
      = (Some (Inr ?tasks),
         snd (awaited_request (dailyPlanOperation (answering plan_text) ?parse 1) (init 0)))" .
  from daily_plan_one_gia [OF idle_init run] run idle_init show ?thesis by simp
qed


lemma excess_small: "N < 2 ^ 53 \<Longrightarrow> excess N = 0"
  by (subst excess.simps) simp

lemma excess_large: "\<not> N < 2 ^ 53 \<Longrightarrow> excess N = Suc (excess (N div 2))"
  by (subst excess.simps) simp

lemma excess_upper: "N < 2 ^ (53 + excess N)"
proof (induction N rule: excess.induct)
  case (1 N)
  show ?case
  proof (cases "N < 2 ^ 53")
    case True
    then show ?thesis by (simp add: excess_small)
  next
    case False
    from 1 [OF False] have "N div 2 < 2 ^ (53 + excess (N div 2))" .
    then have "N < 2 * 2 ^ (53 + excess (N div 2))" by linarith
    then show ?thesis by (simp only: excess_large [OF False] add_Suc_right power_Suc)
  qed
qed





















end
